theory Spec2Isabelle
  imports Complex_Main "HOL-Library.Word" "HOL-Library.Multiset" "HOL-Library.Log_Nat"
begin

section \<open>Instanced3DModel3DTileContentProvider: data model\<close>

text \<open>
  The content provider of \<^verbatim>\<open>Source/Scene/Instanced3DModel3DTileContentProvider.js\<close>
  is a JavaScript object with mutable fields. It is embedded as a record; every method
  takes the record and returns the updated one. A \<^verbatim>\<open>throw\<close> is the \<open>Inl\<close> branch of
  a sum. Fields that hold \<^verbatim>\<open>undefined\<close> until they are assigned are options.
  JavaScript numbers that are byte offsets, lengths and counts are natural numbers (all
  of them stay far below \<open>2^53\<close>, where doubles are exact); a double read from the
  buffer is kept as its IEEE-754 bit pattern.
\<close>

type_synonym byte = "8 word"
type_synonym float64 = "64 word"

datatype developer_error =
    InvalidMagic string
  | UnsupportedVersion nat
  | UnsupportedGltfFormat nat
  | BatchIdOutOfRange int

datatype error =
    DeveloperError developer_error
  | RangeError
  | SyntaxError
  | TypeError
  | Rejection string
  | CollaboratorError nat

datatype content_state = UNLOADED | LOADING | PROCESSING | READY | FAILED

text \<open>
  Modelled from the spec: the deferred of \<^verbatim>\<open>ThirdParty/when\<close> (not among the sources).
  The spec says of both observer slots: "Both are single-resolution (resolving twice is a
  no-op/ignored)". The value a content's deferred is resolved with is always the content
  itself, so \<open>Resolved\<close> carries nothing.
\<close>

datatype deferred = Pending | Resolved | Rejected error

definition resolve :: "deferred \<Rightarrow> deferred" where
  "resolve d = (case d of Pending \<Rightarrow> Resolved | _ \<Rightarrow> d)"

definition reject :: "deferred \<Rightarrow> error \<Rightarrow> deferred" where
  "reject d e = (case d of Pending \<Rightarrow> Rejected e | _ \<Rightarrow> d)"

record tileset3d =
  baseUrl :: string

record tile3d =
  distanceToCamera :: real
  contentBoundingVolume :: nat

record 'j batch_table_resources =
  btr_featuresLength :: nat
  batchTable :: "'j option"

record 'm model_instance =
  modelMatrix :: 'm
  batchId :: nat

text \<open>
  The \<^verbatim>\<open>collectionOptions\<close> object that \<^verbatim>\<open>initialize\<close> hands to the
  \<^verbatim>\<open>ModelInstanceCollection\<close> constructor. The array \<^verbatim>\<open>new Array(instancesLength)\<close>
  starts with holes, so its elements are options.

  Modelled from the spec: the \<^verbatim>\<open>length\<close> property of \<^verbatim>\<open>ModelInstanceCollection\<close> (not among
  the sources) is the instance count: "Given N=0 instances, featuresLength is 0".
\<close>

record ('j, 'm) model_instance_collection =
  mic_instances :: "'m model_instance option list"
  mic_batchTableResources :: "'j batch_table_resources"
  mic_boundingVolume :: nat
  mic_cull :: bool
  mic_url :: "string option"
  mic_gltf :: "byte list option"
  mic_basePath :: "string option"

definition mic_length :: "('j, 'm) model_instance_collection \<Rightarrow> nat" where
  "mic_length m = length (mic_instances m)"

text \<open>
  A \<^verbatim>\<open>Cesium3DTileFeature\<close> handle. \<open>f_address\<close> is the identity of the object: the
  count of handles constructed before it, threaded through every function that runs
  \<^verbatim>\<open>new Cesium3DTileFeature\<close>.
\<close>

record 'j feature =
  f_address :: nat
  f_tileset :: tileset3d
  f_batchTableResources :: "'j batch_table_resources option"
  f_batchId :: nat

record ('j, 'm) content =
  modelInstanceCollection :: "('j, 'm) model_instance_collection option"
  url :: string
  tileset :: tileset3d
  tile3D :: tile3d
  state :: content_state
  processingPromise :: deferred
  readyPromise :: deferred
  batchTableResources :: "'j batch_table_resources option"
  features :: "'j feature option list option"
  destroyed :: bool

definition Instanced3DModel3DTileContentProvider ::
    "tileset3d \<Rightarrow> tile3d \<Rightarrow> string \<Rightarrow> ('j, 'm) content" where
  "Instanced3DModel3DTileContentProvider ts t u =
     \<lparr> modelInstanceCollection = None, url = u, tileset = ts, tile3D = t,
       state = UNLOADED, processingPromise = Pending, readyPromise = Pending,
       batchTableResources = None, features = None, destroyed = False \<rparr>"

section \<open>Feature accessor\<close>

text \<open>
  The getter \<^verbatim>\<open>featuresLength\<close> reads \<^verbatim>\<open>this._modelInstanceCollection.length\<close>; on a
  content that has no collection yet the property access throws a TypeError.
\<close>

definition featuresLength :: "('j, 'm) content \<Rightarrow> error + nat" where
  "featuresLength c =
     (case modelInstanceCollection c of
        None \<Rightarrow> Inl TypeError
      | Some m \<Rightarrow> Inr (mic_length m))"

text \<open>
  The loop of \<^verbatim>\<open>createFeatures\<close>:
  \<^verbatim>\<open>for (var i = 0; i < featuresLength; ++i) { features[i] = new Cesium3DTileFeature(tileset, content._batchTableResources, i); }\<close>
  The first argument is the count of handles constructed so far.
\<close>

function createFeatures_loop ::
    "nat \<Rightarrow> tileset3d \<Rightarrow> 'j batch_table_resources option \<Rightarrow> nat \<Rightarrow> nat
      \<Rightarrow> 'j feature option list \<Rightarrow> 'j feature option list \<times> nat" where
  "createFeatures_loop h ts btr i len fs =
     (if i < len
      then createFeatures_loop (Suc h) ts btr (Suc i) len
             (fs[i := Some \<lparr> f_address = h, f_tileset = ts,
                             f_batchTableResources = btr, f_batchId = i \<rparr>])
      else (fs, h))"
  by pat_completeness auto
termination
  by (relation "measure (\<lambda>(h, ts, btr, i, len, fs). len - i)") auto

declare createFeatures_loop.simps [simp del]

definition createFeatures ::
    "nat \<Rightarrow> ('j, 'm) content \<Rightarrow> error + (('j, 'm) content \<times> nat)" where
  "createFeatures h c =
     (case featuresLength c of
        Inl e \<Rightarrow> Inl e
      | Inr len \<Rightarrow>
          if features c = None \<and> 0 < len
          then (case createFeatures_loop h (tileset c) (batchTableResources c) 0 len
                       (replicate len None) of
                  (fs, h') \<Rightarrow> Inr (c\<lparr>features := Some fs\<rparr>, h'))
          else Inr (c, h))"

text \<open>
  The argument of \<^verbatim>\<open>getFeature\<close> is any JavaScript value; the ones that behave
  differently in the guard are \<^verbatim>\<open>undefined\<close>, \<^verbatim>\<open>NaN\<close> and a finite number.
  A comparison with \<^verbatim>\<open>undefined\<close> or \<^verbatim>\<open>NaN\<close> is false; indexing an array with
  anything but an index inside it gives \<^verbatim>\<open>undefined\<close>.
\<close>

datatype js_value = Undefined | NaN | Number real

definition defined :: "js_value \<Rightarrow> bool" where
  "defined v = (v \<noteq> Undefined)"

definition js_less :: "js_value \<Rightarrow> real \<Rightarrow> bool" where
  "js_less v r = (case v of Number x \<Rightarrow> x < r | _ \<Rightarrow> False)"

definition js_greater_eq :: "js_value \<Rightarrow> real \<Rightarrow> bool" where
  "js_greater_eq v r = (case v of Number x \<Rightarrow> x \<ge> r | _ \<Rightarrow> False)"

definition js_index :: "'a option list \<Rightarrow> js_value \<Rightarrow> 'a option" where
  "js_index xs v =
     (case v of
        Number r \<Rightarrow>
          (if 0 \<le> r \<and> r = of_int \<lfloor>r\<rfloor> \<and> nat \<lfloor>r\<rfloor> < length xs
           then xs ! nat \<lfloor>r\<rfloor> else None)
      | _ \<Rightarrow> None)"

definition getFeature ::
    "nat \<Rightarrow> ('j, 'm) content \<Rightarrow> js_value
      \<Rightarrow> error + ('j feature option \<times> ('j, 'm) content \<times> nat)" where
  "getFeature h c b =
     (case modelInstanceCollection c of
        None \<Rightarrow> Inl TypeError
      | Some m \<Rightarrow>
          let featuresLength = mic_length m in
          if \<not> defined b \<or> js_less b 0 \<or> js_greater_eq b (real featuresLength)
          then Inl (DeveloperError (BatchIdOutOfRange (int featuresLength - 1)))
          else (case createFeatures h c of
                  Inl e \<Rightarrow> Inl e
                | Inr (c', h') \<Rightarrow>
                    (case features c' of
                       None \<Rightarrow> Inl TypeError
                     | Some fs \<Rightarrow> Inr (js_index fs b, c', h'))))"

text \<open>
  The array that the loop of \<^verbatim>\<open>createFeatures\<close> builds, in closed form: handle \<open>i\<close> is
  the \<open>i\<close>-th object constructed and is bound to batch id \<open>i\<close>.
\<close>

definition built_features ::
    "nat \<Rightarrow> tileset3d \<Rightarrow> 'j batch_table_resources option \<Rightarrow> nat \<Rightarrow> 'j feature option list" where
  "built_features h ts btr len =
     map (\<lambda>i. Some \<lparr> f_address = h + i, f_tileset = ts,
                      f_batchTableResources = btr, f_batchId = i \<rparr>) [0..<len]"

text \<open>A content whose collection holds two instances, and one whose collection holds none.\<close>

definition example_collection :: "nat \<Rightarrow> (unit, unit) model_instance_collection" where
  "example_collection n =
     \<lparr> mic_instances = map (\<lambda>i. Some \<lparr> modelMatrix = (), batchId = i \<rparr>) [0..<n],
       mic_batchTableResources = \<lparr> btr_featuresLength = n, batchTable = None \<rparr>,
       mic_boundingVolume = 0, mic_cull = False, mic_url = None,
       mic_gltf = Some [], mic_basePath = Some ''tile.i3dm'' \<rparr>"

definition example_content :: "nat \<Rightarrow> (unit, unit) content" where
  "example_content n =
     (Instanced3DModel3DTileContentProvider \<lparr> baseUrl = ''base/'' \<rparr>
        \<lparr> distanceToCamera = 0, contentBoundingVolume = 0 \<rparr> ''tile.i3dm'')
     \<lparr> modelInstanceCollection := Some (example_collection n),
       state := READY,
       batchTableResources := Some \<lparr> btr_featuresLength = n, batchTable = None \<rparr> \<rparr>"


section \<open>Binary tile decoder: \<^verbatim>\<open>initialize\<close>\<close>

text \<open>
  An \<^verbatim>\<open>ArrayBuffer\<close> is its list of bytes. A \<^verbatim>\<open>DataView\<close> or \<^verbatim>\<open>Uint8Array\<close> over a
  part of a buffer is the list of the bytes of that part; constructing one beyond the end
  of the buffer, and reading beyond the end of a view, throw a RangeError. All reads of
  the source pass \<^verbatim>\<open>true\<close> for little-endian.
\<close>

definition sizeOfUint16 :: nat where "sizeOfUint16 = 2"
definition sizeOfUint32 :: nat where "sizeOfUint32 = 4"
definition sizeOfFloat64 :: nat where "sizeOfFloat64 = 8"

definition le_nat :: "byte list \<Rightarrow> nat" where
  "le_nat bs = foldr (\<lambda>b acc. unat b + 256 * acc) bs 0"

definition bytes_at :: "byte list \<Rightarrow> nat \<Rightarrow> nat \<Rightarrow> byte list" where
  "bytes_at buf byteOffset n = take n (drop byteOffset buf)"

definition new_view :: "byte list \<Rightarrow> nat \<Rightarrow> nat \<Rightarrow> error + byte list" where
  "new_view arrayBuffer byteOffset byteLength =
     (if byteOffset + byteLength \<le> length arrayBuffer
      then Inr (bytes_at arrayBuffer byteOffset byteLength)
      else Inl RangeError)"

definition getUint16 :: "byte list \<Rightarrow> nat \<Rightarrow> error + nat" where
  "getUint16 view byteOffset =
     (if byteOffset + 2 \<le> length view
      then Inr (le_nat (bytes_at view byteOffset 2))
      else Inl RangeError)"

definition getUint32 :: "byte list \<Rightarrow> nat \<Rightarrow> error + nat" where
  "getUint32 view byteOffset =
     (if byteOffset + 4 \<le> length view
      then Inr (le_nat (bytes_at view byteOffset 4))
      else Inl RangeError)"

definition getFloat64 :: "byte list \<Rightarrow> nat \<Rightarrow> error + float64" where
  "getFloat64 view byteOffset =
     (if byteOffset + 8 \<le> length view
      then Inr (of_nat (le_nat (bytes_at view byteOffset 8)))
      else Inl RangeError)"

text \<open>
  Modelled from the spec: \<^verbatim>\<open>getMagic\<close> of \<^verbatim>\<open>Core/getMagic\<close> (not among the sources).
  The spec says: "4-byte magic tag must equal a fixed 4-character identifier". The tag is
  the string of the (at most) four bytes at the offset.
\<close>

definition getMagic :: "byte list \<Rightarrow> nat \<Rightarrow> string" where
  "getMagic uint8Array byteOffset =
     map (\<lambda>b. char_of (unat b)) (bytes_at uint8Array byteOffset 4)"

definition defaultValue :: "'a option \<Rightarrow> 'a \<Rightarrow> 'a" where
  "defaultValue a b = (case a of None \<Rightarrow> b | Some v \<Rightarrow> v)"

text \<open>
  The collaborators that \<^verbatim>\<open>initialize\<close> calls and that are not part of this core are
  parameters: parsing the batch table (\<^verbatim>\<open>JSON.parse(getStringFromTypedArray(...))\<close>,
  \<open>None\<close> when it throws the SyntaxError), resolving the glTF uri
  (\<^verbatim>\<open>getAbsoluteUri(getStringFromTypedArray(gltfView), baseUrl)\<close>), and the two
  floating-point conversions \<^verbatim>\<open>Cartesian3.fromRadians\<close> (on the WGS84 ellipsoid) and
  \<^verbatim>\<open>Transforms.eastNorthUpToFixedFrame\<close>.
\<close>

record ('j, 'p, 'm) collaborators =
  JSON_parse :: "byte list \<Rightarrow> 'j option"
  getAbsoluteUri :: "byte list \<Rightarrow> string \<Rightarrow> string"
  fromRadians :: "float64 \<Rightarrow> float64 \<Rightarrow> float64 \<Rightarrow> 'p"
  eastNorthUpToFixedFrame :: "'p \<Rightarrow> 'm"

text \<open>The header fields that \<^verbatim>\<open>initialize\<close> keeps in local variables.\<close>

record i3dm_header =
  hd_batchTableByteLength :: nat
  hd_gltfByteLength :: nat
  hd_gltfFormat :: nat
  hd_instancesLength :: nat
  hd_end :: nat

text \<open>
  Lines 198 to 236 of the source: the magic check, the version check, the skipped byte
  length, the four header reads and the check of the glTF format. Nothing is assigned to
  the content in this part. \<open>hd_end\<close> is the value of \<^verbatim>\<open>byteOffset\<close> after it.
\<close>

definition read_header :: "byte list \<Rightarrow> nat option \<Rightarrow> error + i3dm_header" where
  "read_header arrayBuffer byteOffset_arg =
     (let byteOffset = defaultValue byteOffset_arg 0;
          uint8Array = arrayBuffer;
          magic = getMagic uint8Array byteOffset
      in if magic \<noteq> ''i3dm'' then Inl (DeveloperError (InvalidMagic magic))
      else
        let view = arrayBuffer;
            byteOffset = byteOffset + sizeOfUint32
        in case getUint32 view byteOffset of
             Inl e \<Rightarrow> Inl e
           | Inr version \<Rightarrow>
        if version \<noteq> 1 then Inl (DeveloperError (UnsupportedVersion version))
        else
        let byteOffset = byteOffset + sizeOfUint32;
            byteOffset = byteOffset + sizeOfUint32
        in case getUint32 view byteOffset of
             Inl e \<Rightarrow> Inl e
           | Inr batchTableByteLength \<Rightarrow>
        let byteOffset = byteOffset + sizeOfUint32
        in case getUint32 view byteOffset of
             Inl e \<Rightarrow> Inl e
           | Inr gltfByteLength \<Rightarrow>
        let byteOffset = byteOffset + sizeOfUint32
        in case getUint32 view byteOffset of
             Inl e \<Rightarrow> Inl e
           | Inr gltfFormat \<Rightarrow>
        let byteOffset = byteOffset + sizeOfUint32
        in case getUint32 view byteOffset of
             Inl e \<Rightarrow> Inl e
           | Inr instancesLength \<Rightarrow>
        let byteOffset = byteOffset + sizeOfUint32
        in if gltfFormat \<noteq> 0 \<and> gltfFormat \<noteq> 1
           then Inl (DeveloperError (UnsupportedGltfFormat gltfFormat))
           else Inr \<lparr> hd_batchTableByteLength = batchTableByteLength,
                      hd_gltfByteLength = gltfByteLength,
                      hd_gltfFormat = gltfFormat,
                      hd_instancesLength = instancesLength,
                      hd_end = byteOffset \<rparr>)"

text \<open>
  One turn of the loop of lines 285 to 307: the two doubles, the batch id (read from the
  view when there is a batch table, the array index otherwise), and the model matrix of
  the position at height \<open>0.0\<close> (bit pattern \<open>0\<close>). The result is the instance and the
  advanced \<^verbatim>\<open>byteOffset\<close>.
\<close>

definition read_instance ::
    "('j, 'p, 'm) collaborators \<Rightarrow> byte list \<Rightarrow> bool \<Rightarrow> nat \<Rightarrow> nat
      \<Rightarrow> error + ('m model_instance \<times> nat)" where
  "read_instance env instancesView hasBatchTable i byteOffset =
     (case getFloat64 instancesView byteOffset of
        Inl e \<Rightarrow> Inl e
      | Inr longitude \<Rightarrow>
     let byteOffset = byteOffset + sizeOfFloat64
     in case getFloat64 instancesView byteOffset of
        Inl e \<Rightarrow> Inl e
      | Inr latitude \<Rightarrow>
     let byteOffset = byteOffset + sizeOfFloat64;
         height = 0
     in case (if hasBatchTable
              then (case getUint16 instancesView byteOffset of
                      Inl e \<Rightarrow> Inl e
                    | Inr b \<Rightarrow> Inr (b, byteOffset + sizeOfUint16))
              else Inr (i, byteOffset)) of
        Inl e \<Rightarrow> Inl e
      | Inr (batchId', byteOffset) \<Rightarrow>
     let position = fromRadians env longitude latitude height;
         modelMatrix' = eastNorthUpToFixedFrame env position
     in Inr (\<lparr> modelMatrix = modelMatrix', batchId = batchId' \<rparr>, byteOffset))"

function read_instances ::
    "('j, 'p, 'm) collaborators \<Rightarrow> byte list \<Rightarrow> bool \<Rightarrow> nat \<Rightarrow> nat \<Rightarrow> nat
      \<Rightarrow> 'm model_instance option list \<Rightarrow> error + 'm model_instance option list" where
  "read_instances env instancesView hasBatchTable instancesLength i byteOffset insts =
     (if i < instancesLength
      then (case read_instance env instancesView hasBatchTable i byteOffset of
              Inl e \<Rightarrow> Inl e
            | Inr (inst, byteOffset') \<Rightarrow>
                read_instances env instancesView hasBatchTable instancesLength (Suc i)
                  byteOffset' (insts[i := Some inst]))
      else Inr insts)"
  by pat_completeness auto
termination
  by (relation "measure (\<lambda>(env, v, hbt, n, i, off, xs). n - i)") auto

declare read_instances.simps [simp del]

text \<open>
  \<^verbatim>\<open>initialize\<close>. The result is \<open>Inr\<close> of the content after a normal return, or \<open>Inl\<close> of
  the thrown error and the content as the throw leaves it. The batch table resources are
  one object, assigned to the content (line 239) before the batch table is parsed into it
  (line 244) and before it is handed to the collection; the model copies the object's
  value at each of these places. The continuations that line 316 registers on the
  collection's \<^verbatim>\<open>readyPromise\<close> are \<open>collection_ready\<close> and \<open>collection_failed\<close> below.
\<close>

definition initialize ::
    "('j, 'p, 'm) collaborators \<Rightarrow> ('j, 'm) content \<Rightarrow> byte list \<Rightarrow> nat option
      \<Rightarrow> (error \<times> ('j, 'm) content) + ('j, 'm) content" where
  "initialize env c arrayBuffer byteOffset_arg =
     (case read_header arrayBuffer byteOffset_arg of
        Inl e \<Rightarrow> Inl (e, c)
      | Inr hdr \<Rightarrow>
     let uint8Array = arrayBuffer;
         byteOffset = hd_end hdr;
         batchTableResources' = \<lparr> btr_featuresLength = hd_instancesLength hdr, batchTable = None \<rparr>;
         c = c\<lparr>batchTableResources := Some batchTableResources'\<rparr>;
         hasBatchTable = (0 < hd_batchTableByteLength hdr)
     in case (if hasBatchTable
              then (case JSON_parse env (bytes_at uint8Array byteOffset (hd_batchTableByteLength hdr)) of
                      None \<Rightarrow> Inl SyntaxError
                    | Some j \<Rightarrow> Inr (batchTableResources'\<lparr>batchTable := Some j\<rparr>,
                                      byteOffset + hd_batchTableByteLength hdr))
              else Inr (batchTableResources', byteOffset)) of
        Inl e \<Rightarrow> Inl (e, c)
      | Inr (batchTableResources', byteOffset) \<Rightarrow>
     let c = c\<lparr>batchTableResources := Some batchTableResources'\<rparr>
     in case new_view arrayBuffer byteOffset (hd_gltfByteLength hdr) of
        Inl e \<Rightarrow> Inl (e, c)
      | Inr gltfView \<Rightarrow>
     let byteOffset = byteOffset + hd_gltfByteLength hdr;
         instanceByteLength = sizeOfFloat64 * 2 + (if hasBatchTable then sizeOfUint16 else 0);
         instancesByteLength = hd_instancesLength hdr * instanceByteLength
     in case new_view arrayBuffer byteOffset instancesByteLength of
        Inl e \<Rightarrow> Inl (e, c)
      | Inr instancesView \<Rightarrow>
     let collectionOptions =
           \<lparr> mic_instances = replicate (hd_instancesLength hdr) None,
             mic_batchTableResources = batchTableResources',
             mic_boundingVolume = contentBoundingVolume (tile3D c),
             mic_cull = False,
             mic_url = None,
             mic_gltf = None,
             mic_basePath = None \<rparr>;
         collectionOptions =
           (if hd_gltfFormat hdr = 0
            then collectionOptions\<lparr>mic_url := Some (getAbsoluteUri env gltfView (baseUrl (tileset c)))\<rparr>
            else collectionOptions\<lparr>mic_gltf := Some gltfView, mic_basePath := Some (url c)\<rparr>)
     in case read_instances env instancesView hasBatchTable (hd_instancesLength hdr) 0 0
               (mic_instances collectionOptions) of
        Inl e \<Rightarrow> Inl (e, c)
      | Inr instances' \<Rightarrow>
     let modelInstanceCollection' = collectionOptions\<lparr>mic_instances := instances'\<rparr>
     in Inr (c\<lparr> modelInstanceCollection := Some modelInstanceCollection',
                state := PROCESSING,
                processingPromise := resolve (processingPromise c) \<rparr>))"

definition collection_ready :: "('j, 'm) content \<Rightarrow> ('j, 'm) content" where
  "collection_ready c = c\<lparr> state := READY, readyPromise := resolve (readyPromise c) \<rparr>"

definition collection_failed :: "('j, 'm) content \<Rightarrow> error \<Rightarrow> ('j, 'm) content" where
  "collection_failed c e = c\<lparr> state := FAILED, readyPromise := reject (readyPromise c) e \<rparr>"

text \<open>
  Where the source's arithmetic puts the instance records: after the header, the batch
  table and the glTF bytes, each record 16 bytes long, or 18 when there is a batch table.
  \<open>decoded_instance\<close> is instance \<open>i\<close> as the format describes it, read from the buffer
  itself: longitude at the start of record \<open>i\<close>, latitude 8 bytes later, the batch id
  16 bytes later when there is a batch table.
\<close>

definition instances_offset :: "i3dm_header \<Rightarrow> nat" where
  "instances_offset hdr = hd_end hdr + hd_batchTableByteLength hdr + hd_gltfByteLength hdr"

definition record_size :: "i3dm_header \<Rightarrow> nat" where
  "record_size hdr = 16 + (if 0 < hd_batchTableByteLength hdr then 2 else 0)"

definition decoded_instance ::
    "('j, 'p, 'm) collaborators \<Rightarrow> byte list \<Rightarrow> i3dm_header \<Rightarrow> nat \<Rightarrow> 'm model_instance" where
  "decoded_instance env buf hdr i =
     (let start = instances_offset hdr + i * record_size hdr;
          longitude = of_nat (le_nat (bytes_at buf start 8));
          latitude = of_nat (le_nat (bytes_at buf (start + 8) 8))
      in \<lparr> modelMatrix = eastNorthUpToFixedFrame env (fromRadians env longitude latitude 0),
           batchId = (if 0 < hd_batchTableByteLength hdr
                      then le_nat (bytes_at buf (start + 16) 2)
                      else i) \<rparr>)"

text \<open>
  Example collaborators that keep what they are given: the batch table is the JSON bytes
  (the empty string does not parse), the position is the triple of longitude, latitude
  and height, and the model matrix is the position.
\<close>

definition example_env ::
    "(byte list, float64 \<times> float64 \<times> float64, float64 \<times> float64 \<times> float64) collaborators" where
  "example_env =
     \<lparr> JSON_parse = (\<lambda>bs. if bs = [] then None else Some bs),
       getAbsoluteUri = (\<lambda>bs base. base @ map (\<lambda>b. char_of (unat b)) bs),
       fromRadians = (\<lambda>lon lat h. (lon, lat, h)),
       eastNorthUpToFixedFrame = (\<lambda>p. p) \<rparr>"

definition example_new_content ::
    "(byte list, float64 \<times> float64 \<times> float64) content" where
  "example_new_content =
     Instanced3DModel3DTileContentProvider \<lparr> baseUrl = ''base/'' \<rparr>
        \<lparr> distanceToCamera = 0, contentBoundingVolume = 0 \<rparr> ''tile.i3dm''"

text \<open>
  Example buffers. \<open>i3dm_header_bytes v bt g f n\<close> is a header with the magic
  \<^verbatim>\<open>i3dm\<close>, version \<open>v\<close>, batch table length \<open>bt\<close>, glTF length \<open>g\<close>, glTF format
  \<open>f\<close> and \<open>n\<close> instances (each below 256; the byte length field is not read).
\<close>

definition i3dm_header_bytes :: "byte \<Rightarrow> byte \<Rightarrow> byte \<Rightarrow> byte \<Rightarrow> byte \<Rightarrow> byte list" where
  "i3dm_header_bytes v bt g f n =
     [105, 51, 100, 109,  v, 0, 0, 0,  0, 0, 0, 0,  bt, 0, 0, 0,
      g, 0, 0, 0,  f, 0, 0, 0,  n, 0, 0, 0]"

definition example_tile_with_batch_table :: "byte list" where
  "example_tile_with_batch_table =
     i3dm_header_bytes 1 2 1 1 2 @ [123, 125] @ [7] @
     [1, 0, 0, 0, 0, 0, 0, 0,  2, 0, 0, 0, 0, 0, 0, 0,  5, 0] @
     [3, 0, 0, 0, 0, 0, 0, 0,  4, 0, 0, 0, 0, 0, 0, 0,  0, 1]"

definition example_tile_bad_magic :: "byte list" where
  "example_tile_bad_magic = [98, 51, 100, 109, 1, 0, 0, 0]"

definition example_tile_bad_version :: "byte list" where
  "example_tile_bad_version = i3dm_header_bytes 2 0 0 0 0"

definition example_tile_bad_format :: "byte list" where
  "example_tile_bad_format = i3dm_header_bytes 1 0 0 2 0"


section \<open>Tile content state machine: \<^verbatim>\<open>request\<close>, its continuations, \<^verbatim>\<open>destroy\<close>\<close>

text \<open>
  Modelled from the spec: \<^verbatim>\<open>destroyObject\<close> of \<^verbatim>\<open>Core/destroyObject\<close> (not among the
  sources), which \<^verbatim>\<open>destroy\<close> calls last. The spec says: "destroying a tile/content object
  while LOADING sets an internal destroyed flag; when the in-flight byte delivery resolves,
  the continuation checks this flag". The method \<^verbatim>\<open>isDestroyed\<close> of the source returns
  \<^verbatim>\<open>false\<close>; that is its answer on an object that has not been destroyed, and the
  flag gives the answer on one that has.
\<close>

definition destroyObject :: "('j, 'm) content \<Rightarrow> ('j, 'm) content" where
  "destroyObject c = c\<lparr>destroyed := True\<rparr>"

definition isDestroyed :: "('j, 'm) content \<Rightarrow> bool" where
  "isDestroyed c = (if destroyed c then True else False)"

text \<open>
  \<^verbatim>\<open>destroy\<close>: \<^verbatim>\<open>this._modelInstanceCollection = this._modelInstanceCollection && this._modelInstanceCollection.destroy()\<close>
  leaves \<^verbatim>\<open>undefined\<close> in the field either way (a collaborator's \<^verbatim>\<open>destroy\<close> returns
  \<^verbatim>\<open>undefined\<close>), and the same for the batch table resources.
\<close>

definition destroy :: "('j, 'm) content \<Rightarrow> ('j, 'm) content" where
  "destroy c =
     destroyObject
       (c\<lparr> modelInstanceCollection :=
              (case modelInstanceCollection c of None \<Rightarrow> None | Some m \<Rightarrow> None),
           batchTableResources :=
              (case batchTableResources c of None \<Rightarrow> None | Some b \<Rightarrow> None) \<rparr>)"

text \<open>
  \<^verbatim>\<open>request\<close>. The scheduler is a collaborator: \<open>admitted\<close> says whether
  \<^verbatim>\<open>RequestScheduler.schedule\<close> returned a promise. When it did, the state becomes
  LOADING and two continuations are registered with
  \<^verbatim>\<open>promise.then(function(arrayBuffer) {...}).otherwise(function(error) {...})\<close>.
  They run when the scheduler's promise settles, which \<open>deliver\<close> models: the promise
  either delivers the bytes or fails with an error. By the promise semantics of
  \<^verbatim>\<open>ThirdParty/when\<close> the \<^verbatim>\<open>otherwise\<close> handler runs when the scheduler's promise is
  rejected, when the \<^verbatim>\<open>then\<close> handler returns a rejected promise, and when it throws.
\<close>

definition request :: "('j, 'm) content \<Rightarrow> bool \<Rightarrow> ('j, 'm) content" where
  "request c admitted = (if admitted then c\<lparr>state := LOADING\<rparr> else c)"

datatype delivery = Delivered "byte list" | DeliveryFailed error

text \<open>Lines 185 to 188: \<^verbatim>\<open>that.state = FAILED; that.readyPromise.reject(error);\<close>\<close>

definition request_otherwise :: "('j, 'm) content \<Rightarrow> error \<Rightarrow> ('j, 'm) content" where
  "request_otherwise c e = c\<lparr> state := FAILED, readyPromise := reject (readyPromise c) e \<rparr>"

definition deliver ::
    "('j, 'p, 'm) collaborators \<Rightarrow> ('j, 'm) content \<Rightarrow> delivery \<Rightarrow> ('j, 'm) content" where
  "deliver env c d =
     (case d of
        Delivered arrayBuffer \<Rightarrow>
          if isDestroyed c
          then request_otherwise c (Rejection ''tileset is destroyed'')
          else (case initialize env c arrayBuffer None of
                  Inl (e, c') \<Rightarrow> request_otherwise c' e
                | Inr c' \<Rightarrow> c')
      | DeliveryFailed e \<Rightarrow> request_otherwise c e)"

text \<open>
  Everything that can happen to a content, in any order: a request (admitted or not), the
  settling of a scheduled request, the collection reporting that it is ready or that it
  failed, a direct call of \<^verbatim>\<open>initialize\<close> (whose exception goes to the caller), and
  \<^verbatim>\<open>destroy\<close>.
\<close>

datatype event =
    Request bool
  | Deliver delivery
  | CollectionReady
  | CollectionFailed error
  | Initialize "byte list" "nat option"
  | Destroy

definition step ::
    "('j, 'p, 'm) collaborators \<Rightarrow> ('j, 'm) content \<Rightarrow> event \<Rightarrow> ('j, 'm) content" where
  "step env c ev =
     (case ev of
        Request admitted \<Rightarrow> request c admitted
      | Deliver d \<Rightarrow> deliver env c d
      | CollectionReady \<Rightarrow> collection_ready c
      | CollectionFailed e \<Rightarrow> collection_failed c e
      | Initialize arrayBuffer byteOffset \<Rightarrow>
          (case initialize env c arrayBuffer byteOffset of
             Inl (e, c') \<Rightarrow> c'
           | Inr c' \<Rightarrow> c')
      | Destroy \<Rightarrow> destroy c)"

definition run ::
    "('j, 'p, 'm) collaborators \<Rightarrow> ('j, 'm) content \<Rightarrow> event list \<Rightarrow> ('j, 'm) content" where
  "run env c evs = foldl (step env) c evs"

text \<open>
  The invariant that links the state to the terminal notification: a content in state
  READY or FAILED has a settled \<^verbatim>\<open>readyPromise\<close>.
\<close>

definition terminal_is_settled :: "('j, 'm) content \<Rightarrow> bool" where
  "terminal_is_settled c = (state c = READY \<or> state c = FAILED \<longrightarrow> readyPromise c \<noteq> Pending)"

text \<open>Example event sequences: a load that reaches READY, and further transition attempts.\<close>

definition example_load :: "event list" where
  "example_load =
     [Request False, Request True, Deliver (Delivered example_tile_with_batch_table),
      CollectionReady]"

definition example_further_attempts :: "event list" where
  "example_further_attempts =
     [CollectionReady, CollectionFailed (CollaboratorError 0), Request True,
      Deliver (DeliveryFailed (CollaboratorError 1)),
      Initialize example_tile_bad_magic None, Request True,
      Deliver (Delivered example_tile_with_batch_table), CollectionFailed (CollaboratorError 2)]"

section \<open>JavaScript numbers\<close>

text \<open>
  The coordinates and distances of \<^verbatim>\<open>Source/Scene/GlobeSurfaceTileProvider.js\<close> are
  JavaScript numbers: IEEE 754 binary64 values with 53 significant bits, exponents from
  \<open>-1022\<close> to \<open>1023\<close>, subnormal numbers below \<open>2\<^sup>-\<^sup>1\<^sup>0\<^sup>2\<^sup>2\<close>, two infinities and NaN.
  Every arithmetic operation returns the exact result rounded to the nearest such value,
  ties going to the value with an even significand.

  A finite number is modelled by the real number it denotes. The two zeros are one value:
  the operations that the distance computation uses (\<^verbatim>\<open>+\<close>, \<^verbatim>\<open>-\<close>, \<^verbatim>\<open>*\<close>, \<^verbatim>\<open>>\<close> and
  \<^verbatim>\<open>Math.sqrt\<close>) give the same result for both zeros, up to the sign of a zero result.
\<close>

datatype double = Double_NaN | Double_PosInf | Double_NegInf | Double real

text \<open>Rounding of a quotient to the nearest integer, a tie going to the even one.\<close>

definition round_half_even :: "real \<Rightarrow> int" where
  "round_half_even q =
     (let n = \<lfloor>q\<rfloor>; d = q - of_int n
      in if d < 1 / 2 then n else if 1 / 2 < d then n + 1 else if even n then n else n + 1)"

text \<open>
  \<open>floor_log2 a\<close> is the integer \<open>e\<close> with \<open>2\<^sup>e \<le> a < 2\<^sup>e\<^sup>+\<^sup>1\<close> for a positive \<open>a\<close>, computed
  from the bit length of an integer. The exponent of a binary64 value is never below
  \<open>-1022\<close>: smaller values are subnormal and share the spacing \<open>2\<^sup>-\<^sup>1\<^sup>0\<^sup>7\<^sup>4\<close>.
\<close>

definition floor_log2 :: "real \<Rightarrow> int" where
  "floor_log2 a = (if 1 \<le> a then bitlen \<lfloor>a\<rfloor> - 1 else - bitlen (\<lceil>1 / a\<rceil> - 1))"

definition exponent64 :: "real \<Rightarrow> int" where
  "exponent64 a = max (- 1022) (floor_log2 a)"

text \<open>
  \<open>round64 x\<close> is the binary64 value of the exact result \<open>x\<close>: its magnitude is rounded to
  a multiple of the spacing \<open>2\<^sup>e\<^sup>-\<^sup>5\<^sup>2\<close> of its binade, and a rounded magnitude of \<open>2\<^sup>1\<^sup>0\<^sup>2\<^sup>4\<close> or
  more is an infinity.
\<close>

definition round64 :: "real \<Rightarrow> double" where
  "round64 x =
     (if x = 0 then Double 0
      else let a = \<bar>x\<bar>;
               u = 2 powi (exponent64 a - 52);
               r = of_int (round_half_even (a / u)) * u
           in if 2 ^ 1024 \<le> r then (if 0 < x then Double_PosInf else Double_NegInf)
              else Double (sgn x * r))"

text \<open>The real numbers that are binary64 values: the multiples of their own spacing.\<close>

definition is_double :: "real \<Rightarrow> bool" where
  "is_double x =
     (\<bar>x\<bar> < 2 ^ 1024 \<and>
      (let q = \<bar>x\<bar> / 2 powi (exponent64 \<bar>x\<bar> - 52) in q = of_int \<lfloor>q\<rfloor>))"

fun wf_double :: "double \<Rightarrow> bool" where
  "wf_double (Double x) = is_double x"
| "wf_double v = True"

text \<open>Unary minus, \<^verbatim>\<open>+\<close>, \<^verbatim>\<open>-\<close>, \<^verbatim>\<open>*\<close>, \<^verbatim>\<open>Math.sqrt\<close> and \<^verbatim>\<open>>\<close> on numbers.\<close>

fun num_neg :: "double \<Rightarrow> double" where
  "num_neg (Double x) = Double (- x)"
| "num_neg Double_PosInf = Double_NegInf"
| "num_neg Double_NegInf = Double_PosInf"
| "num_neg Double_NaN = Double_NaN"

fun num_add :: "double \<Rightarrow> double \<Rightarrow> double" where
  "num_add (Double x) (Double y) = round64 (x + y)"
| "num_add Double_NaN b = Double_NaN"
| "num_add a Double_NaN = Double_NaN"
| "num_add Double_PosInf Double_NegInf = Double_NaN"
| "num_add Double_NegInf Double_PosInf = Double_NaN"
| "num_add Double_PosInf b = Double_PosInf"
| "num_add a Double_PosInf = Double_PosInf"
| "num_add Double_NegInf b = Double_NegInf"
| "num_add a Double_NegInf = Double_NegInf"

definition num_sub :: "double \<Rightarrow> double \<Rightarrow> double" where
  "num_sub a b = num_add a (num_neg b)"

definition infinity_of_sign :: "bool \<Rightarrow> double" where
  "infinity_of_sign positive = (if positive then Double_PosInf else Double_NegInf)"

fun num_mul :: "double \<Rightarrow> double \<Rightarrow> double" where
  "num_mul (Double x) (Double y) = round64 (x * y)"
| "num_mul Double_NaN b = Double_NaN"
| "num_mul a Double_NaN = Double_NaN"
| "num_mul Double_PosInf (Double y) = (if y = 0 then Double_NaN else infinity_of_sign (0 < y))"
| "num_mul Double_NegInf (Double y) = (if y = 0 then Double_NaN else infinity_of_sign (y < 0))"
| "num_mul (Double x) Double_PosInf = (if x = 0 then Double_NaN else infinity_of_sign (0 < x))"
| "num_mul (Double x) Double_NegInf = (if x = 0 then Double_NaN else infinity_of_sign (x < 0))"
| "num_mul Double_PosInf Double_PosInf = Double_PosInf"
| "num_mul Double_PosInf Double_NegInf = Double_NegInf"
| "num_mul Double_NegInf Double_PosInf = Double_NegInf"
| "num_mul Double_NegInf Double_NegInf = Double_PosInf"

fun num_sqrt :: "double \<Rightarrow> double" where
  "num_sqrt (Double x) = (if x < 0 then Double_NaN else round64 (sqrt x))"
| "num_sqrt Double_PosInf = Double_PosInf"
| "num_sqrt Double_NegInf = Double_NaN"
| "num_sqrt Double_NaN = Double_NaN"

text \<open>\<open>num_gt a b\<close> is \<^verbatim>\<open>a > b\<close>; a comparison with NaN is false.\<close>

fun num_gt :: "double \<Rightarrow> double \<Rightarrow> bool" where
  "num_gt (Double x) (Double y) = (y < x)"
| "num_gt Double_NaN b = False"
| "num_gt a Double_NaN = False"
| "num_gt Double_NegInf b = False"
| "num_gt a Double_PosInf = False"
| "num_gt Double_PosInf b = True"
| "num_gt a Double_NegInf = True"

text \<open>
  \<^verbatim>\<open>Math.sqrt\<close> is the correctly rounded square root, \<open>round64 (sqrt x)\<close>. For evaluation
  it is computed with integers: \<open>floor_sqrt\<close> is the integer square root, and the
  quotient of the root by the spacing is rounded by comparing squares.
\<close>

function floor_sqrt :: "int \<Rightarrow> int" where
  "floor_sqrt n =
     (if n \<le> 0 then 0
      else let r = 2 * floor_sqrt (n div 4) in if (r + 1) * (r + 1) \<le> n then r + 1 else r)"
  by pat_completeness auto

termination floor_sqrt
  by (relation "measure nat") auto

declare floor_sqrt.simps [simp del]

definition sqrt64 :: "real \<Rightarrow> double" where
  "sqrt64 x =
     (let e = max (- 1022) (floor_log2 x div 2);
          u = 2 powi (e - 52);
          y = x / (u * u);
          n = floor_sqrt \<lfloor>y\<rfloor>;
          m = (of_int n + 1 / 2) * (of_int n + 1 / 2);
          k = (if y < m then n else if m < y then n + 1 else if even n then n else n + 1);
          r = of_int k * u
      in if 2 ^ 1024 \<le> r then Double_PosInf else Double r)"

section \<open>GlobeSurfaceTileProvider: data model\<close>

text \<open>
  \<^verbatim>\<open>Source/Scene/GlobeSurfaceTileProvider.js\<close>. Coordinates and distances are the
  numbers of the previous section. \<^verbatim>\<open>Cartesian3.subtract\<close>, \<^verbatim>\<open>Cartesian3.dot\<close>,
  \<^verbatim>\<open>Cartesian3.negate\<close> and the unit vectors are the component-wise operations of
  \<^verbatim>\<open>Core/Cartesian3\<close>; the dot product adds its three products from left to right. The
  map projection is a collaborator and a parameter.
\<close>

datatype cartesian3 = Cartesian3 (c3_x: double) (c3_y: double) (c3_z: double)

datatype cartographic =
  Cartographic (cg_longitude: double) (cg_latitude: double) (cg_height: double)

record rectangle =
  west :: double
  south :: double
  east :: double
  north :: double

definition Cartesian3_subtract :: "cartesian3 \<Rightarrow> cartesian3 \<Rightarrow> cartesian3" where
  "Cartesian3_subtract l r =
     Cartesian3 (num_sub (c3_x l) (c3_x r)) (num_sub (c3_y l) (c3_y r))
       (num_sub (c3_z l) (c3_z r))"

definition Cartesian3_dot :: "cartesian3 \<Rightarrow> cartesian3 \<Rightarrow> double" where
  "Cartesian3_dot l r =
     num_add (num_add (num_mul (c3_x l) (c3_x r)) (num_mul (c3_y l) (c3_y r)))
       (num_mul (c3_z l) (c3_z r))"

definition Cartesian3_negate :: "cartesian3 \<Rightarrow> cartesian3" where
  "Cartesian3_negate v = Cartesian3 (num_neg (c3_x v)) (num_neg (c3_y v)) (num_neg (c3_z v))"

definition UNIT_Y :: cartesian3 where "UNIT_Y = Cartesian3 (Double 0) (Double 1) (Double 0)"
definition UNIT_Z :: cartesian3 where "UNIT_Z = Cartesian3 (Double 0) (Double 0) (Double 1)"
definition negativeUnitY :: cartesian3 where "negativeUnitY = Cartesian3_negate UNIT_Y"
definition negativeUnitZ :: cartesian3 where "negativeUnitZ = Cartesian3_negate UNIT_Z"

definition Rectangle_getSouthwest :: "rectangle \<Rightarrow> cartographic" where
  "Rectangle_getSouthwest r = Cartographic (west r) (south r) (Double 0)"

definition Rectangle_getNortheast :: "rectangle \<Rightarrow> cartographic" where
  "Rectangle_getNortheast r = Cartographic (east r) (north r) (Double 0)"

datatype scene_mode = SCENE2D | COLUMBUS_VIEW | MORPHING | SCENE3D

text \<open>
  The fields of the frame state and of the rendering context that the modelled methods
  read: the scene mode, the projection \<^verbatim>\<open>frameState.scene2D.projection.project\<close>, and
  \<^verbatim>\<open>context.maximumTextureImageUnits\<close>.
\<close>

record frame_state =
  mode :: scene_mode
  project :: "cartographic \<Rightarrow> cartesian3"
  maximumTextureImageUnits :: nat

section \<open>Imagery layers, imagery and TileImagery\<close>

text \<open>
  An imagery layer is an object that many imagery tiles refer to and that the layer
  collection mutates (it renumbers \<^verbatim>\<open>_layerIndex\<close>), so an imagery holds the address of
  its layer and the layer objects live in a store. \<^verbatim>\<open>===\<close> on layers is equality of
  addresses. A layer property such as \<^verbatim>\<open>alpha\<close> is a number or a function of the imagery
  tile's \<open>x\<close>, \<open>y\<close> and \<open>level\<close> (the frame state and the layer, which the source also
  passes, are fixed while a tile is rendered).
\<close>

datatype layer_property = Constant real | Dynamic "nat \<Rightarrow> nat \<Rightarrow> nat \<Rightarrow> real"

record imagery_layer =
  layerIndex :: int
  isBaseLayer :: bool
  alpha :: layer_property

text \<open>
  \<^verbatim>\<open>ImageryState\<close> is not among the sources; the source names only its value
  \<^verbatim>\<open>READY\<close>, every other value is \<open>ImageryState_other\<close>.
\<close>

datatype imagery_state = ImageryState_READY | ImageryState_other nat

record imagery =
  imageryLayer :: nat
  imagery_state :: imagery_state
  texture :: nat
  imagery_x :: nat
  imagery_y :: nat
  imagery_level :: nat

record tile_imagery =
  loadingImagery :: "imagery option"
  readyImagery :: "imagery option"

text \<open>
  The surface tile \<^verbatim>\<open>tile.data\<close> (a \<^verbatim>\<open>GlobeSurfaceTile\<close>) and the quadtree tile, with the
  fields the modelled methods read or write. \<open>tile_id\<close> is the identity of the tile
  object (\<^verbatim>\<open>command.owner = tile\<close> stores a reference).
\<close>

record surface_tile =
  imagery_list :: "tile_imagery list"
  southwestCornerCartesian :: cartesian3
  northeastCornerCartesian :: cartesian3
  westNormal :: cartesian3
  southNormal :: cartesian3
  eastNormal :: cartesian3
  northNormal :: cartesian3
  maximumHeight :: double

record quadtree_tile =
  tile_id :: nat
  tile_rectangle :: rectangle
  data :: surface_tile
  isRenderable :: bool

section \<open>Level-of-detail distance: \<^verbatim>\<open>getDistanceToTile\<close>\<close>

text \<open>
  The four planes' signed distances and the height above the tile's top, as lines 592 to
  632 compute them. Outside 3D the corners are the projected rectangle corners with the
  components moved (\<open>z := y\<close>, \<open>y := x\<close>, \<open>x := 0.0\<close>), the normals are the unit
  vectors, the maximum height is \<open>0.0\<close> and the camera height is the camera's \<open>x\<close>.
  Both distances of a corner are read from the scratch vector before the next
  subtraction overwrites it.
\<close>

record tile_distances =
  distanceToWestPlane :: double
  distanceToSouthPlane :: double
  distanceToEastPlane :: double
  distanceToNorthPlane :: double
  distanceFromTop :: double

definition swizzle2D :: "cartesian3 \<Rightarrow> cartesian3" where
  "swizzle2D p = Cartesian3 (Double 0) (c3_x p) (c3_y p)"

definition plane_distances ::
    "quadtree_tile \<Rightarrow> frame_state \<Rightarrow> cartesian3 \<Rightarrow> cartographic \<Rightarrow> tile_distances" where
  "plane_distances tile frameState cameraCartesianPosition cameraCartographicPosition =
     (let surfaceTile = data tile;
          is3D = (mode frameState = SCENE3D);
          southwestCorner =
            (if is3D then southwestCornerCartesian surfaceTile
             else swizzle2D (project frameState (Rectangle_getSouthwest (tile_rectangle tile))));
          northeastCorner =
            (if is3D then northeastCornerCartesian surfaceTile
             else swizzle2D (project frameState (Rectangle_getNortheast (tile_rectangle tile))));
          westN = (if is3D then westNormal surfaceTile else negativeUnitY);
          eastN = (if is3D then eastNormal surfaceTile else UNIT_Y);
          southN = (if is3D then southNormal surfaceTile else negativeUnitZ);
          northN = (if is3D then northNormal surfaceTile else UNIT_Z);
          maxHeight = (if is3D then maximumHeight surfaceTile else Double 0);
          vectorFromSouthwestCorner = Cartesian3_subtract cameraCartesianPosition southwestCorner;
          toWest = Cartesian3_dot vectorFromSouthwestCorner westN;
          toSouth = Cartesian3_dot vectorFromSouthwestCorner southN;
          vectorFromNortheastCorner = Cartesian3_subtract cameraCartesianPosition northeastCorner;
          toEast = Cartesian3_dot vectorFromNortheastCorner eastN;
          toNorth = Cartesian3_dot vectorFromNortheastCorner northN;
          cameraHeight = (if is3D then cg_height cameraCartographicPosition
                          else c3_x cameraCartesianPosition)
      in \<lparr> distanceToWestPlane = toWest, distanceToSouthPlane = toSouth,
           distanceToEastPlane = toEast, distanceToNorthPlane = toNorth,
           distanceFromTop = num_sub cameraHeight maxHeight \<rparr>)"

text \<open>Lines 634 to 652: the accumulation of the squares and the square root.\<close>

definition accumulate_distance :: "tile_distances \<Rightarrow> double" where
  "accumulate_distance d =
     (let result = Double 0;
          result = (if num_gt (distanceToWestPlane d) (Double 0)
                    then num_add result (num_mul (distanceToWestPlane d) (distanceToWestPlane d))
                    else if num_gt (distanceToEastPlane d) (Double 0)
                    then num_add result (num_mul (distanceToEastPlane d) (distanceToEastPlane d))
                    else result);
          result = (if num_gt (distanceToSouthPlane d) (Double 0)
                    then num_add result (num_mul (distanceToSouthPlane d) (distanceToSouthPlane d))
                    else if num_gt (distanceToNorthPlane d) (Double 0)
                    then num_add result (num_mul (distanceToNorthPlane d) (distanceToNorthPlane d))
                    else result);
          result = (if num_gt (distanceFromTop d) (Double 0)
                    then num_add result (num_mul (distanceFromTop d) (distanceFromTop d))
                    else result)
      in num_sqrt result)"

definition getDistanceToTile ::
    "quadtree_tile \<Rightarrow> frame_state \<Rightarrow> cartesian3 \<Rightarrow> cartographic \<Rightarrow> double" where
  "getDistanceToTile tile frameState cameraCartesianPosition cameraCartographicPosition =
     accumulate_distance
       (plane_distances tile frameState cameraCartesianPosition cameraCartographicPosition)"

subsection \<open>The distance as the specification describes it\<close>

text \<open>
  The signed distance of a point from the plane through \<open>origin\<close> with the given
  normal, written in coordinates: positive on the side the normal points to.
\<close>

definition half_space_distance :: "cartesian3 \<Rightarrow> cartesian3 \<Rightarrow> cartesian3 \<Rightarrow> double" where
  "half_space_distance p origin normal =
     num_add
       (num_add (num_mul (num_sub (c3_x p) (c3_x origin)) (c3_x normal))
                (num_mul (num_sub (c3_y p) (c3_y origin)) (c3_y normal)))
       (num_mul (num_sub (c3_z p) (c3_z origin)) (c3_z normal))"

text \<open>
  In 3D the box is bounded by the tile's west and south planes through its southwest
  corner, its east and north planes through its northeast corner, and its maximum
  height, against which the camera's geodetic height is measured.
\<close>

definition box_distances_3D :: "surface_tile \<Rightarrow> cartesian3 \<Rightarrow> cartographic \<Rightarrow> tile_distances" where
  "box_distances_3D st camera cameraCartographic =
     \<lparr> distanceToWestPlane =
         half_space_distance camera (southwestCornerCartesian st) (westNormal st),
       distanceToSouthPlane =
         half_space_distance camera (southwestCornerCartesian st) (southNormal st),
       distanceToEastPlane =
         half_space_distance camera (northeastCornerCartesian st) (eastNormal st),
       distanceToNorthPlane =
         half_space_distance camera (northeastCornerCartesian st) (northNormal st),
       distanceFromTop = num_sub (cg_height cameraCartographic) (maximumHeight st) \<rparr>"

text \<open>
  In the projected modes the axes are permuted: the projected \<open>x\<close> (east) is the
  camera's \<open>y\<close> axis, the projected \<open>y\<close> (north) is the camera's \<open>z\<close> axis, and the
  camera's \<open>x\<close> is its height above the map plane. The four planes are axis-aligned
  through the projected southwest and northeast corners of the tile rectangle.
\<close>

definition box_distances_projected ::
    "(cartographic \<Rightarrow> cartesian3) \<Rightarrow> rectangle \<Rightarrow> cartesian3 \<Rightarrow> tile_distances" where
  "box_distances_projected proj r camera =
     (let sw = proj (Cartographic (west r) (south r) (Double 0));
          ne = proj (Cartographic (east r) (north r) (Double 0));
          southwest = Cartesian3 (Double 0) (c3_x sw) (c3_y sw);
          northeast = Cartesian3 (Double 0) (c3_x ne) (c3_y ne)
      in \<lparr> distanceToWestPlane =
             half_space_distance camera southwest (Cartesian3 (Double 0) (Double (- 1)) (Double 0)),
           distanceToSouthPlane =
             half_space_distance camera southwest (Cartesian3 (Double 0) (Double 0) (Double (- 1))),
           distanceToEastPlane =
             half_space_distance camera northeast (Cartesian3 (Double 0) (Double 1) (Double 0)),
           distanceToNorthPlane =
             half_space_distance camera northeast (Cartesian3 (Double 0) (Double 0) (Double 1)),
           distanceFromTop = num_sub (c3_x camera) (Double 0) \<rparr>)"

text \<open>
  The excess of a distance clamped at zero, and the excess on an axis with two planes
  as the larger of the two clamped distances, which does not depend on the order of the
  planes.
\<close>

definition positive_part :: "double \<Rightarrow> double" where
  "positive_part a = (if num_gt a (Double 0) then a else Double 0)"

definition num_max :: "double \<Rightarrow> double \<Rightarrow> double" where
  "num_max a b = (if num_gt a b then a else b)"

definition axis_excess :: "double \<Rightarrow> double \<Rightarrow> double" where
  "axis_excess a b = num_max (positive_part a) (positive_part b)"

text \<open>The Euclidean norm of three numbers, evaluated in binary64 from left to right.\<close>

definition norm64 :: "double \<Rightarrow> double \<Rightarrow> double \<Rightarrow> double" where
  "norm64 a b c = num_sqrt (num_add (num_add (num_mul a a) (num_mul b b)) (num_mul c c))"

text \<open>The distances that are exceeded, that is, positive.\<close>

definition exceeded :: "tile_distances \<Rightarrow> double list" where
  "exceeded d =
     filter (\<lambda>v. num_gt v (Double 0))
       [distanceToWestPlane d, distanceToEastPlane d, distanceToSouthPlane d,
        distanceToNorthPlane d, distanceFromTop d]"

subsection \<open>Example tiles\<close>

text \<open>
  A tile in 3D: the unit box with outward axis normals and top at height 1. Its
  rectangle projects, under the identity-like projection of the example frame state, to
  the unit square.
\<close>

definition example_surface_tile :: surface_tile where
  "example_surface_tile =
     \<lparr> imagery_list = [],
       southwestCornerCartesian = Cartesian3 (Double 0) (Double 0) (Double 0),
       northeastCornerCartesian = Cartesian3 (Double 0) (Double 1) (Double 1),
       westNormal = Cartesian3 (Double 0) (Double (- 1)) (Double 0),
       southNormal = Cartesian3 (Double 0) (Double 0) (Double (- 1)),
       eastNormal = Cartesian3 (Double 0) (Double 1) (Double 0),
       northNormal = Cartesian3 (Double 0) (Double 0) (Double 1),
       maximumHeight = Double 1 \<rparr>"

definition example_tile :: quadtree_tile where
  "example_tile =
     \<lparr> tile_id = 0,
       tile_rectangle = \<lparr> west = Double 0, south = Double 0, east = Double 1, north = Double 1 \<rparr>,
       data = example_surface_tile,
       isRenderable = True \<rparr>"

definition example_frame_state :: "scene_mode \<Rightarrow> frame_state" where
  "example_frame_state m =
     \<lparr> mode = m,
       project = (\<lambda>c. Cartesian3 (cg_longitude c) (cg_latitude c) (cg_height c)),
       maximumTextureImageUnits = 2 \<rparr>"

text \<open>
  A quarter wedge in 3D, between the meridian planes \<open>y = 0\<close> (west, normal \<open>-y\<close>) and
  \<open>x = 0\<close> (east, normal \<open>-x\<close>): a camera on the far side of the axis is beyond both.
\<close>

definition wedge_surface_tile :: surface_tile where
  "wedge_surface_tile =
     \<lparr> imagery_list = [],
       southwestCornerCartesian = Cartesian3 (Double 1) (Double 0) (Double 0),
       northeastCornerCartesian = Cartesian3 (Double 0) (Double 1) (Double 1),
       westNormal = Cartesian3 (Double 0) (Double (- 1)) (Double 0),
       southNormal = Cartesian3 (Double 0) (Double 0) (Double (- 1)),
       eastNormal = Cartesian3 (Double (- 1)) (Double 0) (Double 0),
       northNormal = Cartesian3 (Double 0) (Double 0) (Double 1),
       maximumHeight = Double 1 \<rparr>"

definition wedge_tile :: quadtree_tile where
  "wedge_tile = example_tile\<lparr> tile_id := 1, data := wedge_surface_tile \<rparr>"

text \<open>Two numbers whose squares leave the range of binary64.\<close>

definition tiny :: real where "tiny = 2 powi (- 600)"

definition huge :: real where "huge = 2 powi 600"


section \<open>The provider: command pool, render lists, frame protocol\<close>

text \<open>
  A draw command is an object that is stored in the pool \<^verbatim>\<open>_drawCommands\<close> and, by
  reference, in the render lists and in the frame's command list. Commands are created
  only in \<^verbatim>\<open>renderTile\<close>, where they are pushed on the pool, and the pool is never
  reordered or cut, so the position of a command in the pool is its identity: a reference
  to a command is its pool index. The model keeps the command fields and the uniforms
  that depend on the tile's imagery: the owner, the debug flag, the arguments of
  \<^verbatim>\<open>getShaderProgram\<close> that it computes (the number of day textures and
  \<^verbatim>\<open>applyAlpha\<close>), the day textures and their alpha values. The remaining uniforms
  (relative-to-center transform, tile rectangle, Mercator terms, water mask, brightness,
  contrast, hue, saturation, gamma, credits, texture translation and scale, wireframe,
  bounding volume) are values written into the claimed command and its uniform map; they
  take no part in claiming pool entries, counting textures or filling the render lists
  and are left out.
\<close>

record draw_command =
  owner :: nat
  cull :: bool
  debugShowBoundingVolume :: bool
  shaderProgram :: "(nat \<times> bool) option"
  uniformMap :: "nat option"

record uniform_map =
  dayTextures :: "nat list"
  dayTextureAlpha :: "real list"

text \<open>
  Lines 416 to 419: \<^verbatim>\<open>command = new DrawCommand(); command.owner = tile; command.cull = false;\<close>
  The fields the constructor leaves unset are \<open>None\<close> or \<open>False\<close>.
\<close>

definition new_DrawCommand :: "quadtree_tile \<Rightarrow> draw_command" where
  "new_DrawCommand tile =
     \<lparr> owner = tile_id tile, cull = False, debugShowBoundingVolume = False,
       shaderProgram = None, uniformMap = None \<rparr>"

definition createTileUniformMap :: uniform_map where
  "createTileUniformMap = \<lparr> dayTextures = [], dayTextureAlpha = [] \<rparr>"

text \<open>
  \<^verbatim>\<open>_tilesToRenderByTextureCount\<close> is a JavaScript array with holes: entry \<open>n\<close> is
  \<^verbatim>\<open>undefined\<close> (\<open>None\<close>) until a command with \<open>n\<close> day textures is rendered. The
  provider also holds the store of layer objects and the tiles that
  \<^verbatim>\<open>this._quadtree.forEachLoadedTile\<close> visits.
\<close>

record provider =
  layerOrderChanged :: bool
  tilesToRenderByTextureCount :: "nat list option list"
  drawCommands :: "draw_command list"
  uniformMaps :: "uniform_map list"
  usedDrawCommands :: nat
  renderState_defined :: bool
  debug_boundingSphereTile :: "nat option"
  layerObjects :: "nat \<Rightarrow> imagery_layer"
  loadedTiles :: "quadtree_tile list"

definition GlobeSurfaceTileProvider ::
    "(nat \<Rightarrow> imagery_layer) \<Rightarrow> quadtree_tile list \<Rightarrow> provider" where
  "GlobeSurfaceTileProvider layers tiles =
     \<lparr> layerOrderChanged = False,
       tilesToRenderByTextureCount = [],
       drawCommands = [],
       uniformMaps = [],
       usedDrawCommands = 0,
       renderState_defined = False,
       debug_boundingSphereTile = None,
       layerObjects = layers,
       loadedTiles = tiles \<rparr>"

text \<open>
  Array element access and assignment as JavaScript does them: reading outside the
  array gives \<^verbatim>\<open>undefined\<close>, assigning at the length appends, assigning beyond the length
  leaves holes. \<open>array_set\<close> is used for the uniform arrays, which the source fills
  at indices \<open>0, 1, 2, ...\<close> in turn, so the index is never beyond the length.
\<close>

definition sparse_get :: "'a option list \<Rightarrow> nat \<Rightarrow> 'a option" where
  "sparse_get xs n = (if n < length xs then xs ! n else None)"

definition sparse_put :: "'a option list \<Rightarrow> nat \<Rightarrow> 'a \<Rightarrow> 'a option list" where
  "sparse_put xs n v =
     (if n < length xs then xs[n := Some v]
      else xs @ replicate (n - length xs) None @ [Some v])"

definition array_set :: "'a list \<Rightarrow> nat \<Rightarrow> 'a \<Rightarrow> 'a list" where
  "array_set xs n v = (if n < length xs then xs[n := v] else xs @ [v])"

subsection \<open>\<^verbatim>\<open>beginFrame\<close> and \<^verbatim>\<open>endFrame\<close>\<close>

text \<open>
  The imagery that stands for a TileImagery in the comparator of \<^verbatim>\<open>beginFrame\<close> and in
  \<^verbatim>\<open>_onLayerRemoved\<close>: the loading imagery, or else the ready imagery.
\<close>

definition tile_imagery_imagery :: "tile_imagery \<Rightarrow> imagery option" where
  "tile_imagery_imagery tileImagery =
     (case loadingImagery tileImagery of
        Some i \<Rightarrow> Some i
      | None \<Rightarrow> readyImagery tileImagery)"

text \<open>
  \<^verbatim>\<open>tile.data.imagery.sort(sortTileImageryByLayerIndex)\<close>. The comparator reads
  \<^verbatim>\<open>imageryLayer._layerIndex\<close> of both arguments and throws a TypeError on a TileImagery
  with neither imagery; any sort of two or more elements compares each of them. Entries
  with equal layer index keep their order here (JavaScript leaves the order of ties to
  the engine).
\<close>

definition sortTileImageryByLayerIndex_key :: "(nat \<Rightarrow> imagery_layer) \<Rightarrow> tile_imagery \<Rightarrow> int" where
  "sortTileImageryByLayerIndex_key layers tileImagery =
     (case tile_imagery_imagery tileImagery of
        Some i \<Rightarrow> layerIndex (layers (imageryLayer i))
      | None \<Rightarrow> 0)"

definition sort_tile_imagery ::
    "(nat \<Rightarrow> imagery_layer) \<Rightarrow> quadtree_tile \<Rightarrow> error + quadtree_tile" where
  "sort_tile_imagery layers tile =
     (let coll = imagery_list (data tile)
      in if 2 \<le> length coll \<and> list_ex (\<lambda>t. tile_imagery_imagery t = None) coll
         then Inl TypeError
         else Inr (tile\<lparr>data := (data tile)
                     \<lparr>imagery_list := sort_key (sortTileImageryByLayerIndex_key layers) coll\<rparr>\<rparr>))"

text \<open>
  \<^verbatim>\<open>forEachLoadedTile\<close> with a callback that may throw: the tiles before the throwing one
  have been updated, the exception ends the iteration.
\<close>

fun forEachLoadedTile ::
    "(quadtree_tile \<Rightarrow> error + quadtree_tile) \<Rightarrow> quadtree_tile list \<Rightarrow> error + quadtree_tile list" where
  "forEachLoadedTile f [] = Inr []"
| "forEachLoadedTile f (t # ts) =
     (case f t of
        Inl e \<Rightarrow> Inl e
      | Inr t' \<Rightarrow>
          (case forEachLoadedTile f ts of
             Inl e \<Rightarrow> Inl e
           | Inr ts' \<Rightarrow> Inr (t' # ts')))"

text \<open>
  \<^verbatim>\<open>beginFrame\<close>. The call \<^verbatim>\<open>this._imageryLayers._update()\<close> acts on the layer
  collection, a collaborator, and is not modelled. When the comparator throws, the
  exception leaves \<^verbatim>\<open>beginFrame\<close>; the model returns the error only (the provider such
  a throw leaves behind is not used by any statement here).
\<close>

definition beginFrame :: "provider \<Rightarrow> error + provider" where
  "beginFrame p =
     (case (if layerOrderChanged p
            then (case forEachLoadedTile (sort_tile_imagery (layerObjects p)) (loadedTiles p) of
                    Inl e \<Rightarrow> Inl e
                  | Inr tiles \<Rightarrow> Inr (p\<lparr>layerOrderChanged := False, loadedTiles := tiles\<rparr>))
            else Inr p) of
        Inl e \<Rightarrow> Inl e
      | Inr p \<Rightarrow>
          Inr (p\<lparr> tilesToRenderByTextureCount :=
                     map (\<lambda>tiles. case tiles of None \<Rightarrow> None | Some cs \<Rightarrow> Some [])
                         (tilesToRenderByTextureCount p),
                   usedDrawCommands := 0 \<rparr>))"

text \<open>
  The two loops of \<^verbatim>\<open>endFrame\<close>: the render lists in ascending texture count, holes
  skipped, each list in its order.
\<close>

definition commands_of :: "nat list option list \<Rightarrow> nat list" where
  "commands_of tilesToRenderByTextureCount' =
     concat (map (\<lambda>tilesToRender. case tilesToRender of None \<Rightarrow> [] | Some cs \<Rightarrow> cs)
                 tilesToRenderByTextureCount')"

definition endFrame :: "provider \<Rightarrow> nat list \<Rightarrow> nat list" where
  "endFrame p commandList = commandList @ commands_of (tilesToRenderByTextureCount p)"

subsection \<open>\<^verbatim>\<open>renderTile\<close>\<close>

text \<open>
  The inner loop, lines 458 to 528:
  \<^verbatim>\<open>while (numberOfDayTextures < maxTextures && imageryIndex < imageryLen)\<close>.
  An entry without ready imagery, with imagery that is not READY, or whose layer's
  \<^verbatim>\<open>alpha\<close> is the number 0 is skipped (\<^verbatim>\<open>continue\<close>) after the index has advanced.
  The result is the uniform map, \<^verbatim>\<open>applyAlpha\<close>, \<^verbatim>\<open>numberOfDayTextures\<close> and
  \<^verbatim>\<open>imageryIndex\<close>.
\<close>

text \<open>\<^verbatim>\<open>imagery.imageryLayer.alpha === 0.0\<close>: true of the number 0, false of a function.\<close>

definition is_number_zero :: "layer_property \<Rightarrow> bool" where
  "is_number_zero v = (case v of Constant x \<Rightarrow> x = 0 | Dynamic f \<Rightarrow> False)"

function day_textures_loop ::
    "(nat \<Rightarrow> imagery_layer) \<Rightarrow> nat \<Rightarrow> tile_imagery list \<Rightarrow> nat \<Rightarrow> uniform_map \<Rightarrow> bool
      \<Rightarrow> nat \<Rightarrow> nat \<Rightarrow> uniform_map \<times> bool \<times> nat \<times> nat" where
  "day_textures_loop layers maxTextures coll imageryLen um applyAlpha numberOfDayTextures imageryIndex =
     (if numberOfDayTextures < maxTextures \<and> imageryIndex < imageryLen
      then
        let tileImagery = coll ! imageryIndex;
            imageryIndex' = imageryIndex + 1
        in (case readyImagery tileImagery of
              None \<Rightarrow>
                day_textures_loop layers maxTextures coll imageryLen um applyAlpha
                  numberOfDayTextures imageryIndex'
            | Some img \<Rightarrow>
                if imagery_state img \<noteq> ImageryState_READY
                   \<or> is_number_zero (alpha (layers (imageryLayer img)))
                then day_textures_loop layers maxTextures coll imageryLen um applyAlpha
                       numberOfDayTextures imageryIndex'
                else
                  let a = (case alpha (layers (imageryLayer img)) of
                             Dynamic f \<Rightarrow> f (imagery_x img) (imagery_y img) (imagery_level img)
                           | Constant v \<Rightarrow> v);
                      um' = um\<lparr> dayTextures :=
                                   array_set (dayTextures um) numberOfDayTextures (texture img),
                                 dayTextureAlpha :=
                                   array_set (dayTextureAlpha um) numberOfDayTextures a \<rparr>
                  in day_textures_loop layers maxTextures coll imageryLen um'
                       (applyAlpha \<or> a \<noteq> 1) (numberOfDayTextures + 1) imageryIndex')
      else (um, applyAlpha, numberOfDayTextures, imageryIndex))"
  by pat_completeness auto
termination
  by (relation "measure (\<lambda>(layers, maxT, coll, len, um, ap, n, i). len - i)") auto

declare day_textures_loop.simps [simp del]

text \<open>
  One turn of the \<^verbatim>\<open>do ... while\<close> loop, lines 410 to 568. A command and a uniform map are
  taken from the pool at \<^verbatim>\<open>_usedDrawCommands\<close>, or created and pushed when the pool is
  not longer than that; reading a uniform map that is not there gives \<^verbatim>\<open>undefined\<close>,
  and the first assignment to it throws a TypeError. Then the counter is incremented, the
  inner loop runs, the texture array is trimmed, the command is written and its reference
  is pushed on the render list of its texture count. The result is the provider and the
  advanced \<^verbatim>\<open>imageryIndex\<close>.
\<close>

definition render_command ::
    "frame_state \<Rightarrow> quadtree_tile \<Rightarrow> provider \<Rightarrow> nat \<Rightarrow> error + (provider \<times> nat)" where
  "render_command frameState tile p imageryIndex =
     (let surfaceTile = data tile;
          maxTextures = maximumTextureImageUnits frameState;
          tileImageryCollection = imagery_list surfaceTile;
          imageryLen = length tileImageryCollection;
          fresh = (length (drawCommands p) \<le> usedDrawCommands p);
          slot = (if fresh then length (drawCommands p) else usedDrawCommands p);
          p = (if fresh
               then p\<lparr> drawCommands := drawCommands p @ [new_DrawCommand tile],
                        uniformMaps := uniformMaps p @ [createTileUniformMap] \<rparr>
               else p);
          uniformMap_slot = (if fresh then length (uniformMaps p) - 1 else usedDrawCommands p)
      in if \<not> uniformMap_slot < length (uniformMaps p) then Inl TypeError
         else
           let command = (drawCommands p ! slot)\<lparr>owner := tile_id tile\<rparr>;
               um = uniformMaps p ! uniformMap_slot;
               p = p\<lparr>usedDrawCommands := usedDrawCommands p + 1\<rparr>;
               command = command\<lparr>debugShowBoundingVolume :=
                                    (debug_boundingSphereTile p = Some (tile_id tile))\<rparr>
           in (case day_textures_loop (layerObjects p) maxTextures tileImageryCollection
                      imageryLen um False 0 imageryIndex of
                 (um, applyAlpha, numberOfDayTextures, imageryIndex) \<Rightarrow>
                   let um = um\<lparr>dayTextures := take numberOfDayTextures (dayTextures um)\<rparr>;
                       command = command\<lparr> shaderProgram := Some (numberOfDayTextures, applyAlpha),
                                          uniformMap := Some uniformMap_slot \<rparr>;
                       renderLists = tilesToRenderByTextureCount p;
                       renderLists = (if sparse_get renderLists numberOfDayTextures = None
                                      then sparse_put renderLists numberOfDayTextures []
                                      else renderLists);
                       renderLists = sparse_put renderLists numberOfDayTextures
                                       (the (sparse_get renderLists numberOfDayTextures) @ [slot])
                   in Inr (p\<lparr> drawCommands := (drawCommands p)[slot := command],
                               uniformMaps := (uniformMaps p)[uniformMap_slot := um],
                               tilesToRenderByTextureCount := renderLists \<rparr>,
                           imageryIndex)))"

text \<open>
  The \<^verbatim>\<open>do ... while (imageryIndex < imageryLen)\<close> loop. With a texture budget of 0 and
  imagery left the inner loop consumes nothing and the loop never ends, so the loop is a
  partial function: \<open>None\<close> is "does not return". An exception is \<open>Some (Inl e)\<close>.
\<close>

partial_function (option) render_loop ::
    "frame_state \<Rightarrow> quadtree_tile \<Rightarrow> provider \<Rightarrow> nat \<Rightarrow> (error + provider) option" where
  "render_loop frameState tile p imageryIndex =
     (let r = render_command frameState tile p imageryIndex
      in if isl r then Some (Inl (projl r))
         else if snd (projr r) < length (imagery_list (data tile))
         then render_loop frameState tile (fst (projr r)) (snd (projr r))
         else Some (Inr (fst (projr r))))"

definition renderTile ::
    "quadtree_tile \<Rightarrow> frame_state \<Rightarrow> provider \<Rightarrow> (error + provider) option" where
  "renderTile tile frameState p =
     (let p = (if \<not> renderState_defined p then p\<lparr>renderState_defined := True\<rparr> else p);
          imageryIndex = 0
      in render_loop frameState tile p imageryIndex)"


subsection \<open>\<^verbatim>\<open>_onLayerRemoved\<close>\<close>

text \<open>
  The scan of lines 675 to 694 over one tile's TileImagery list. \<^verbatim>\<open>startIndex\<close> starts
  at \<open>-1\<close>; the loop leaves (\<^verbatim>\<open>break\<close>) at the first entry of another layer after the
  run has started. \<^verbatim>\<open>tileImagery.freeResources()\<close> belongs to the collaborator
  \<^verbatim>\<open>TileImagery\<close>; the model records the entries it is called on, in order. An entry
  with neither loading nor ready imagery makes \<^verbatim>\<open>imagery.imageryLayer\<close> throw a
  TypeError.
\<close>

function layer_removed_scan ::
    "nat \<Rightarrow> tile_imagery list \<Rightarrow> nat \<Rightarrow> nat \<Rightarrow> int \<Rightarrow> nat \<Rightarrow> tile_imagery list
      \<Rightarrow> error + (int \<times> nat \<times> tile_imagery list)" where
  "layer_removed_scan layer tileImageryCollection len i startIndex numDestroyed freed =
     (if i < len
      then
        let tileImagery = tileImageryCollection ! i
        in (case tile_imagery_imagery tileImagery of
              None \<Rightarrow> Inl TypeError
            | Some img \<Rightarrow>
                if imageryLayer img = layer
                then layer_removed_scan layer tileImageryCollection len (i + 1)
                       (if startIndex = - 1 then int i else startIndex)
                       (numDestroyed + 1) (freed @ [tileImagery])
                else if startIndex \<noteq> - 1
                then Inr (startIndex, numDestroyed, freed)
                else layer_removed_scan layer tileImageryCollection len (i + 1)
                       startIndex numDestroyed freed)
      else Inr (startIndex, numDestroyed, freed))"
  by pat_completeness auto
termination
  by (relation "measure (\<lambda>(layer, coll, len, i, s, n, fr). len - i)") auto

declare layer_removed_scan.simps [simp del]

text \<open>\<^verbatim>\<open>array.splice(start, deleteCount)\<close> for a start inside the array.\<close>

definition splice :: "'a list \<Rightarrow> nat \<Rightarrow> nat \<Rightarrow> 'a list" where
  "splice xs start deleteCount = take start xs @ drop (start + deleteCount) xs"

text \<open>
  The callback of \<^verbatim>\<open>_onLayerRemoved\<close> on one loaded tile: the tile after it and the
  entries whose resources were freed.
\<close>

definition onLayerRemoved_tile ::
    "(nat \<Rightarrow> imagery_layer) \<Rightarrow> nat \<Rightarrow> quadtree_tile
      \<Rightarrow> error + (quadtree_tile \<times> tile_imagery list)" where
  "onLayerRemoved_tile layers layer tile =
     (let tileImageryCollection = imagery_list (data tile)
      in case layer_removed_scan layer tileImageryCollection (length tileImageryCollection)
                0 (- 1) 0 [] of
           Inl e \<Rightarrow> Inl e
         | Inr (startIndex, numDestroyed, freed) \<Rightarrow>
             let tileImageryCollection =
                   (if startIndex \<noteq> - 1
                    then splice tileImageryCollection (nat startIndex) numDestroyed
                    else tileImageryCollection);
                 tile = tile\<lparr>data := (data tile)\<lparr>imagery_list := tileImageryCollection\<rparr>\<rparr>;
                 tile = (if isBaseLayer (layers layer) then tile\<lparr>isRenderable := False\<rparr> else tile)
             in Inr (tile, freed))"

definition onLayerRemoved :: "provider \<Rightarrow> nat \<Rightarrow> error + provider" where
  "onLayerRemoved p layer =
     (case forEachLoadedTile
             (\<lambda>tile. case onLayerRemoved_tile (layerObjects p) layer tile of
                        Inl e \<Rightarrow> Inl e
                      | Inr (tile', freed) \<Rightarrow> Inr tile')
             (loadedTiles p) of
        Inl e \<Rightarrow> Inl e
      | Inr tiles \<Rightarrow> Inr (p\<lparr>loadedTiles := tiles\<rparr>))"

definition onLayerMoved :: "provider \<Rightarrow> provider" where
  "onLayerMoved p = p\<lparr>layerOrderChanged := True\<rparr>"

text \<open>
  The layer a TileImagery belongs to, and the statement of the removal: the entries of
  the removed layer, and the entries that stay.
\<close>

definition tile_imagery_layer :: "tile_imagery \<Rightarrow> nat option" where
  "tile_imagery_layer tileImagery = map_option imageryLayer (tile_imagery_imagery tileImagery)"

definition belongs_to :: "nat \<Rightarrow> tile_imagery \<Rightarrow> bool" where
  "belongs_to layer tileImagery = (tile_imagery_layer tileImagery = Some layer)"

text \<open>
  Example: three layers (addresses 10, 20, 30 with indices 0, 1, 2; layer 10 is the base
  layer) and a tile whose entries were inserted in mixed order.
\<close>

definition example_layers :: "nat \<Rightarrow> imagery_layer" where
  "example_layers a =
     \<lparr> layerIndex = (if a = 10 then 0 else if a = 20 then 1 else 2),
       isBaseLayer = (a = 10),
       alpha = Constant 1 \<rparr>"

definition example_imagery :: "nat \<Rightarrow> nat \<Rightarrow> imagery" where
  "example_imagery layer t =
     \<lparr> imageryLayer = layer, imagery_state = ImageryState_READY, texture = t,
       imagery_x = 0, imagery_y = 0, imagery_level = 0 \<rparr>"

definition example_ready :: "nat \<Rightarrow> nat \<Rightarrow> tile_imagery" where
  "example_ready layer t = \<lparr> loadingImagery = None, readyImagery = Some (example_imagery layer t) \<rparr>"

definition example_loading :: "nat \<Rightarrow> nat \<Rightarrow> tile_imagery" where
  "example_loading layer t = \<lparr> loadingImagery = Some (example_imagery layer t), readyImagery = None \<rparr>"

definition example_mixed_imagery :: "tile_imagery list" where
  "example_mixed_imagery =
     [example_ready 20 1, example_ready 30 2, example_ready 10 3,
      example_loading 20 4, example_ready 10 5]"

definition tile_with_imagery :: "nat \<Rightarrow> tile_imagery list \<Rightarrow> quadtree_tile" where
  "tile_with_imagery n coll =
     example_tile\<lparr> tile_id := n, data := example_surface_tile\<lparr>imagery_list := coll\<rparr> \<rparr>"

text \<open>
  The layer index of a TileImagery under an assignment \<open>idx\<close> of indices to layer
  addresses. With \<open>idx\<close> the current \<^verbatim>\<open>_layerIndex\<close> of the layer objects it is the
  key the comparator of \<^verbatim>\<open>beginFrame\<close> sorts by.
\<close>

definition layer_index_of :: "(nat \<Rightarrow> int) \<Rightarrow> tile_imagery \<Rightarrow> int" where
  "layer_index_of idx tileImagery =
     (case tile_imagery_layer tileImagery of Some l \<Rightarrow> idx l | None \<Rightarrow> 0)"

definition example_sorted_imagery :: "tile_imagery list" where
  "example_sorted_imagery =
     [example_ready 10 3, example_ready 10 5, example_ready 20 1,
      example_loading 20 4, example_ready 30 2]"


subsection \<open>Frames\<close>

text \<open>
  The tiles that the quadtree driver renders between \<^verbatim>\<open>beginFrame\<close> and
  \<^verbatim>\<open>endFrame\<close>, in order; a call that throws or does not return ends the frame.
\<close>

fun render_tiles :: "frame_state \<Rightarrow> provider \<Rightarrow> quadtree_tile list \<Rightarrow> (error + provider) option" where
  "render_tiles frameState p [] = Some (Inr p)"
| "render_tiles frameState p (tile # tiles) =
     (case renderTile tile frameState p of
        None \<Rightarrow> None
      | Some (Inl e) \<Rightarrow> Some (Inl e)
      | Some (Inr p') \<Rightarrow> render_tiles frameState p' tiles)"

text \<open>
  One frame: \<^verbatim>\<open>beginFrame\<close>, the tiles, \<^verbatim>\<open>endFrame\<close> into an empty command list.
  The result is the provider after the frame and the command list (references into the
  pool).
\<close>

definition run_frame ::
    "frame_state \<Rightarrow> provider \<Rightarrow> quadtree_tile list \<Rightarrow> (error + provider \<times> nat list) option" where
  "run_frame frameState p tiles =
     (case beginFrame p of
        Inl e \<Rightarrow> Some (Inl e)
      | Inr p1 \<Rightarrow>
          (case render_tiles frameState p1 tiles of
             None \<Rightarrow> None
           | Some (Inl e) \<Rightarrow> Some (Inl e)
           | Some (Inr p2) \<Rightarrow> Some (Inr (p2, endFrame p2 []))))"

text \<open>
  The invariant of the pool: the two pool arrays have the same length, the used count is
  not beyond it, and the references in the render lists (what \<^verbatim>\<open>endFrame\<close> appends)
  are the pool indices below the used count, each once.
\<close>

definition pool_inv :: "provider \<Rightarrow> bool" where
  "pool_inv p =
     (length (uniformMaps p) = length (drawCommands p)
      \<and> usedDrawCommands p \<le> length (drawCommands p)
      \<and> mset (endFrame p []) = mset [0..<usedDrawCommands p])"

text \<open>
  How the pool changes while tiles are rendered: the used count does not decrease; the
  pool is as long as before, or as long as the used count when that is more; the pool
  entries from the used count on are the entries that were there before; and the layer
  order flag and the loaded tiles are untouched.
\<close>

definition pool_grows :: "provider \<Rightarrow> provider \<Rightarrow> bool" where
  "pool_grows p p' =
     (usedDrawCommands p \<le> usedDrawCommands p'
      \<and> length (drawCommands p') = max (length (drawCommands p)) (usedDrawCommands p')
      \<and> drop (usedDrawCommands p') (drawCommands p') = drop (usedDrawCommands p') (drawCommands p)
      \<and> drop (usedDrawCommands p') (uniformMaps p') = drop (usedDrawCommands p') (uniformMaps p)
      \<and> layerOrderChanged p' = layerOrderChanged p
      \<and> loadedTiles p' = loadedTiles p)"

text \<open>
  A TileImagery contributes a day texture when the inner loop does not skip it: it has
  ready imagery in state READY whose layer's \<^verbatim>\<open>alpha\<close> is not the number 0.
\<close>

definition contributes_texture :: "(nat \<Rightarrow> imagery_layer) \<Rightarrow> tile_imagery \<Rightarrow> bool" where
  "contributes_texture layers tileImagery =
     (case readyImagery tileImagery of
        None \<Rightarrow> False
      | Some img \<Rightarrow>
          imagery_state img = ImageryState_READY
          \<and> \<not> is_number_zero (alpha (layers (imageryLayer img))))"

text \<open>The render list of a texture count, empty when the entry is a hole.\<close>

definition render_list :: "provider \<Rightarrow> nat \<Rightarrow> nat list" where
  "render_list p n =
     (case sparse_get (tilesToRenderByTextureCount p) n of None \<Rightarrow> [] | Some cs \<Rightarrow> cs)"

text \<open>Example tiles: \<open>example_tile_textures k\<close> has \<open>k\<close> ready imagery of layer 20.\<close>

definition example_tile_textures :: "nat \<Rightarrow> quadtree_tile" where
  "example_tile_textures k = tile_with_imagery k (map (example_ready 20) [0..<k])"

definition example_tile_nothing_ready :: quadtree_tile where
  "example_tile_nothing_ready =
     tile_with_imagery 7
       [\<lparr> loadingImagery = Some (example_imagery 20 1), readyImagery = None \<rparr>,
        \<lparr> loadingImagery = None,
          readyImagery = Some ((example_imagery 30 2)\<lparr>imagery_state := ImageryState_other 0\<rparr>) \<rparr>]"

definition example_provider :: provider where
  "example_provider = GlobeSurfaceTileProvider example_layers []"

text \<open>Example frames of tiles that contribute no texture, one command each.\<close>

definition example_frame_tiles :: "nat \<Rightarrow> quadtree_tile list" where
  "example_frame_tiles k = replicate k example_tile_nothing_ready"


section \<open>Verification: feature accessor\<close>

lemma createFeatures_loop_spec:
  "i \<le> len \<Longrightarrow> length fs = len \<Longrightarrow>
   createFeatures_loop h ts btr i len fs = (fs', h') \<Longrightarrow>
   h' = h + (len - i) \<and> length fs' = len \<and>
   (\<forall>k<len. fs' ! k =
      (if k < i then fs ! k
       else Some \<lparr> f_address = h + (k - i), f_tileset = ts,
                   f_batchTableResources = btr, f_batchId = k \<rparr>))"
proof (induction h ts btr i len fs arbitrary: fs' h' rule: createFeatures_loop.induct)
  case (1 h ts btr i len fs)
  show ?case
  proof (cases "i < len")
    case True
    let ?fs = "fs[i := Some \<lparr> f_address = h, f_tileset = ts,
                             f_batchTableResources = btr, f_batchId = i \<rparr>]"
    from True "1.prems" have run: "createFeatures_loop (Suc h) ts btr (Suc i) len ?fs = (fs', h')"
      by (simp add: createFeatures_loop.simps[of h ts btr i len fs])
    from True "1.prems" have "Suc i \<le> len" "length ?fs = len" by simp_all
    from "1.IH"[OF True this run]
    have ih: "h' = Suc h + (len - Suc i)" "length fs' = len"
      "\<forall>k<len. fs' ! k = (if k < Suc i then ?fs ! k
         else Some \<lparr> f_address = Suc h + (k - Suc i), f_tileset = ts,
                   f_batchTableResources = btr, f_batchId = k \<rparr>)"
      by simp_all
    have "\<forall>k<len. fs' ! k =
      (if k < i then fs ! k
       else Some \<lparr> f_address = h + (k - i), f_tileset = ts,
                   f_batchTableResources = btr, f_batchId = k \<rparr>)"
    proof (intro allI impI)
      fix k assume k: "k < len"
      show "fs' ! k = (if k < i then fs ! k
       else Some \<lparr> f_address = h + (k - i), f_tileset = ts,
                   f_batchTableResources = btr, f_batchId = k \<rparr>)"
      proof (cases "k = i")
        case True
        with ih(3) k "1.prems" show ?thesis by simp
      next
        case False
        with ih(3) k "1.prems" show ?thesis by (auto simp: Suc_diff_Suc less_Suc_eq)
      qed
    qed
    with ih True show ?thesis by simp
  next
    case False
    with "1.prems"(3) have "fs' = fs" "h' = h"
      by (simp_all add: createFeatures_loop.simps[of h ts btr i len fs])
    with False "1.prems"(1,2) show ?thesis by simp
  qed
qed

lemma createFeatures_loop_built:
  "createFeatures_loop h ts btr 0 len (replicate len None) = (built_features h ts btr len, h + len)"
proof -
  obtain fs' h' where run: "createFeatures_loop h ts btr 0 len (replicate len None) = (fs', h')"
    by (cases "createFeatures_loop h ts btr 0 len (replicate len None)")
  from createFeatures_loop_spec[OF _ _ run]
  have h': "h' = h + len" and len: "length fs' = len"
    and nth: "\<forall>k<len. fs' ! k = Some \<lparr> f_address = h + k, f_tileset = ts,
                   f_batchTableResources = btr, f_batchId = k \<rparr>"
    by simp_all
  have "fs' = built_features h ts btr len"
    by (rule nth_equalityI) (simp_all add: built_features_def len nth)
  with run h' show ?thesis by simp
qed

lemma createFeatures_first:
  assumes "modelInstanceCollection c = Some m" "features c = None" "0 < mic_length m"
  shows "createFeatures h c =
           Inr (c\<lparr>features := Some (built_features h (tileset c) (batchTableResources c) (mic_length m))\<rparr>,
                h + mic_length m)"
  using assms by (simp add: createFeatures_def featuresLength_def createFeatures_loop_built)

lemma createFeatures_cached:
  assumes "modelInstanceCollection c = Some m" "features c = Some fs"
  shows "createFeatures h c = Inr (c, h)"
  using assms by (simp add: createFeatures_def featuresLength_def)

lemma createFeatures_empty:
  assumes "modelInstanceCollection c = Some m" "mic_length m = 0"
  shows "createFeatures h c = Inr (c, h)"
  using assms by (simp add: createFeatures_def featuresLength_def)

lemma createFeatures_Inr:
  assumes "modelInstanceCollection c = Some m"
  shows "\<exists>c' h'. createFeatures h c = Inr (c', h')"
  using assms by (simp add: createFeatures_def featuresLength_def split: prod.splits)

lemma js_index_nat: "b < length xs \<Longrightarrow> js_index xs (Number (real b)) = xs ! b"
  by (simp add: js_index_def)

lemma getFeature_cached:
  assumes "modelInstanceCollection c = Some m" "features c = Some fs" "b < mic_length m"
  shows "getFeature h c (Number (real b)) = Inr (js_index fs (Number (real b)), c, h)"
  using assms
  by (simp add: getFeature_def createFeatures_cached defined_def js_less_def js_greater_eq_def
      Let_def)

text \<open>
  C6. For a batch id inside the range, the first call of \<^verbatim>\<open>getFeature\<close> (the feature
  array not built yet) constructs one handle per instance, handle \<open>i\<close> bound to batch id
  \<open>i\<close>, each a fresh object, and returns handle \<open>b\<close>. Every later call with a batch id
  inside the range returns the handle stored at that index, leaves the content as it is and
  constructs nothing: the array is never rebuilt, and the same batch id gives the same
  object.
\<close>

theorem getFeature_idempotent:
  assumes "modelInstanceCollection c = Some m" "features c = None" "b < mic_length m"
  shows "\<exists>fs c'. getFeature h c (Number (real b)) = Inr (fs ! b, c', h + mic_length m)
           \<and> c' = c\<lparr>features := Some fs\<rparr>
           \<and> length fs = mic_length m
           \<and> (\<forall>i<mic_length m. \<exists>f. fs ! i = Some f \<and> f_batchId f = i \<and> f_address f = h + i)
           \<and> (\<forall>h2 b2. b2 < mic_length m \<longrightarrow>
                  getFeature h2 c' (Number (real b2)) = Inr (fs ! b2, c', h2))"
proof -
  let ?fs = "built_features h (tileset c) (batchTableResources c) (mic_length m)"
  let ?c' = "c\<lparr>features := Some ?fs\<rparr>"
  have len: "length ?fs = mic_length m" by (simp add: built_features_def)
  from assms have pos: "0 < mic_length m" by simp
  have first: "getFeature h c (Number (real b)) = Inr (?fs ! b, ?c', h + mic_length m)"
    using assms len
    by (simp add: getFeature_def createFeatures_first[OF assms(1,2) pos] defined_def
        js_less_def js_greater_eq_def js_index_nat Let_def)
  have handles: "\<forall>i<mic_length m. \<exists>f. ?fs ! i = Some f \<and> f_batchId f = i \<and> f_address f = h + i"
    by (simp add: built_features_def)
  have later: "\<forall>h2 b2. b2 < mic_length m \<longrightarrow>
                  getFeature h2 ?c' (Number (real b2)) = Inr (?fs ! b2, ?c', h2)"
  proof (intro allI impI)
    fix h2 b2 assume b2: "b2 < mic_length m"
    have "getFeature h2 ?c' (Number (real b2)) = Inr (js_index ?fs (Number (real b2)), ?c', h2)"
      by (rule getFeature_cached[where m = m]) (simp_all add: assms b2)
    with b2 len show "getFeature h2 ?c' (Number (real b2)) = Inr (?fs ! b2, ?c', h2)"
      by (simp add: js_index_nat)
  qed
  from first len handles later show ?thesis by blast
qed

theorem getFeature_idempotent_witness:
  "\<exists>fs c'. getFeature 7 (example_content 2) (Number (real 1)) = Inr (fs ! 1, c', 9)
           \<and> c' = (example_content 2)\<lparr>features := Some fs\<rparr>
           \<and> length fs = 2
           \<and> (\<forall>i<2. \<exists>f. fs ! i = Some f \<and> f_batchId f = i \<and> f_address f = 7 + i)
           \<and> (\<forall>h2 b2. b2 < 2 \<longrightarrow>
                  getFeature h2 c' (Number (real b2)) = Inr (fs ! b2, c', h2))"
proof -
  have m: "modelInstanceCollection (example_content 2) = Some (example_collection 2)"
    by (simp add: example_content_def)
  have f: "features (example_content 2) = None"
    by (simp add: example_content_def Instanced3DModel3DTileContentProvider_def)
  have l: "mic_length (example_collection 2) = 2"
    by (simp add: mic_length_def example_collection_def)
  have b: "1 < mic_length (example_collection 2)" by (simp add: l)
  from getFeature_idempotent[OF m f b, of 7] show ?thesis by (simp add: l)
qed

text \<open>
  C7. On a content that has its instance collection, \<^verbatim>\<open>getFeature\<close> throws the
  DeveloperError exactly when the batch id is \<^verbatim>\<open>undefined\<close>, less than zero, or at least
  \<^verbatim>\<open>featuresLength\<close>; so \<open>-1\<close> and the instance count both throw. With no instances
  \<^verbatim>\<open>featuresLength\<close> is 0 and every call throws (the feature array of such a content is
  never built, since \<^verbatim>\<open>createFeatures\<close> assigns it only for a positive length).
\<close>

theorem getFeature_precondition:
  assumes "modelInstanceCollection c = Some m"
  shows "((\<exists>d. getFeature h c b = Inl (DeveloperError d)) \<longleftrightarrow>
            (b = Undefined \<or> js_less b 0 \<or> js_greater_eq b (real (mic_length m))))
         \<and> (\<exists>d. getFeature h c (Number (- 1)) = Inl (DeveloperError d))
         \<and> (\<exists>d. getFeature h c (Number (real (mic_length m))) = Inl (DeveloperError d))
         \<and> (mic_length m = 0 \<and> features c = None \<longrightarrow>
              featuresLength c = Inr 0 \<and> (\<exists>e. getFeature h c b = Inl e))"
proof -
  let ?guard = "b = Undefined \<or> js_less b 0 \<or> js_greater_eq b (real (mic_length m))"
  obtain c' h' where cf: "createFeatures h c = Inr (c', h')"
    using createFeatures_Inr[OF assms] by blast
  have iff: "(\<exists>d. getFeature h c b = Inl (DeveloperError d)) \<longleftrightarrow> ?guard"
  proof (cases ?guard)
    case True
    with assms have "getFeature h c b = Inl (DeveloperError (BatchIdOutOfRange (int (mic_length m) - 1)))"
      by (simp add: getFeature_def defined_def Let_def)
    with True show ?thesis by simp
  next
    case False
    with assms have "getFeature h c b =
        (case features c' of None \<Rightarrow> Inl TypeError | Some fs \<Rightarrow> Inr (js_index fs b, c', h'))"
      by (simp add: getFeature_def defined_def Let_def cf)
    then have "\<not> (\<exists>d. getFeature h c b = Inl (DeveloperError d))"
      by (simp split: option.splits)
    with False show ?thesis by simp
  qed
  have neg: "\<exists>d. getFeature h c (Number (- 1)) = Inl (DeveloperError d)"
    using assms by (simp add: getFeature_def js_less_def Let_def)
  have top: "\<exists>d. getFeature h c (Number (real (mic_length m))) = Inl (DeveloperError d)"
    using assms by (simp add: getFeature_def js_greater_eq_def Let_def)
  have none: "mic_length m = 0 \<and> features c = None \<longrightarrow>
              featuresLength c = Inr 0 \<and> (\<exists>e. getFeature h c b = Inl e)"
  proof (intro impI, elim conjE)
    assume z: "mic_length m = 0" and f: "features c = None"
    have "getFeature h c b = Inl TypeError \<or>
          getFeature h c b = Inl (DeveloperError (BatchIdOutOfRange (int (mic_length m) - 1)))"
      using assms f by (simp add: getFeature_def createFeatures_empty[OF assms z] Let_def)
    then have "\<exists>e. getFeature h c b = Inl e" by blast
    moreover have "featuresLength c = Inr 0" using assms z by (simp add: featuresLength_def)
    ultimately show "featuresLength c = Inr 0 \<and> (\<exists>e. getFeature h c b = Inl e)" by simp
  qed
  from iff neg top none show ?thesis by blast
qed

theorem getFeature_precondition_witness:
  "((\<exists>d. getFeature 0 (example_content 0) NaN = Inl (DeveloperError d)) \<longleftrightarrow>
            (NaN = Undefined \<or> js_less NaN 0 \<or> js_greater_eq NaN (real 0)))
         \<and> (\<exists>d. getFeature 0 (example_content 0) (Number (- 1)) = Inl (DeveloperError d))
         \<and> (\<exists>d. getFeature 0 (example_content 0) (Number (real 0)) = Inl (DeveloperError d))
         \<and> featuresLength (example_content 0) = Inr 0
         \<and> getFeature 0 (example_content 0) NaN = Inl TypeError"
proof -
  have m: "modelInstanceCollection (example_content 0) = Some (example_collection 0)"
    by (simp add: example_content_def)
  have l: "mic_length (example_collection 0) = 0"
    by (simp add: mic_length_def example_collection_def)
  have f: "features (example_content 0) = None"
    by (simp add: example_content_def Instanced3DModel3DTileContentProvider_def)
  have t: "getFeature 0 (example_content 0) NaN = Inl TypeError"
    by (simp add: getFeature_def m l f createFeatures_empty[OF m l] defined_def js_less_def
        js_greater_eq_def Let_def)
  from getFeature_precondition[OF m, of 0 NaN] l f t show ?thesis by simp
qed


section \<open>Verification: binary tile decoder\<close>

lemma length_bytes_at: "byteOffset + n \<le> length buf \<Longrightarrow> length (bytes_at buf byteOffset n) = n"
  by (simp add: bytes_at_def)

lemma bytes_at_bytes_at:
  "k + n \<le> len \<Longrightarrow> bytes_at (bytes_at buf base len) k n = bytes_at buf (base + k) n"
  by (simp add: bytes_at_def drop_take min_def add.commute)

lemma record_within: "i < n \<Longrightarrow> i * s + s \<le> n * (s::nat)"
proof -
  assume "i < n"
  then have "Suc i * s \<le> n * s" by (intro mult_le_mono1) simp
  then show ?thesis by simp
qed

lemma read_header_bad_magic:
  assumes "getMagic buf (defaultValue off 0) \<noteq> ''i3dm''"
  shows "read_header buf off = Inl (DeveloperError (InvalidMagic (getMagic buf (defaultValue off 0))))"
  using assms by (simp add: read_header_def Let_def)

lemma read_header_bad_version:
  assumes "getMagic buf (defaultValue off 0) = ''i3dm''"
    and "getUint32 buf (defaultValue off 0 + 4) = Inr v" and "v \<noteq> 1"
  shows "read_header buf off = Inl (DeveloperError (UnsupportedVersion v))"
  using assms by (simp add: read_header_def Let_def sizeOfUint32_def)

lemma read_header_bad_format:
  assumes "getMagic buf (defaultValue off 0) = ''i3dm''"
    and "getUint32 buf (defaultValue off 0 + 4) = Inr 1"
    and "getUint32 buf (defaultValue off 0 + 12) = Inr bt"
    and "getUint32 buf (defaultValue off 0 + 16) = Inr g"
    and "getUint32 buf (defaultValue off 0 + 20) = Inr f"
    and "getUint32 buf (defaultValue off 0 + 24) = Inr n"
    and "f \<noteq> 0" and "f \<noteq> 1"
  shows "read_header buf off = Inl (DeveloperError (UnsupportedGltfFormat f))"
  using assms by (simp add: read_header_def Let_def sizeOfUint32_def add.commute)

lemma read_header_ok:
  assumes "read_header buf off = Inr hdr"
  shows "getMagic buf (defaultValue off 0) = ''i3dm''
       \<and> getUint32 buf (defaultValue off 0 + 4) = Inr 1
       \<and> getUint32 buf (defaultValue off 0 + 12) = Inr (hd_batchTableByteLength hdr)
       \<and> getUint32 buf (defaultValue off 0 + 16) = Inr (hd_gltfByteLength hdr)
       \<and> getUint32 buf (defaultValue off 0 + 20) = Inr (hd_gltfFormat hdr)
       \<and> getUint32 buf (defaultValue off 0 + 24) = Inr (hd_instancesLength hdr)
       \<and> (hd_gltfFormat hdr = 0 \<or> hd_gltfFormat hdr = 1)
       \<and> hd_end hdr = defaultValue off 0 + 28"
  using assms
  by (auto simp: read_header_def Let_def sizeOfUint32_def add.commute
      split: if_splits sum.splits)

lemma read_instance_RangeError:
  "read_instance env v hbt i off = Inl e \<Longrightarrow> e = RangeError"
  by (auto simp: read_instance_def Let_def getFloat64_def getUint16_def
      split: if_splits sum.splits)

lemma read_instances_RangeError:
  "read_instances env v hbt n i off insts = Inl e \<Longrightarrow> e = RangeError"
proof (induction env v hbt n i off insts rule: read_instances.induct)
  case (1 env v hbt n i off insts)
  show ?case
  proof (cases "i < n")
    case True
    show ?thesis
    proof (cases "read_instance env v hbt i off")
      case (Inl e')
      with True "1.prems" have "e = e'"
        by (simp add: read_instances.simps[of env v hbt n i off insts])
      with Inl show ?thesis by (simp add: read_instance_RangeError)
    next
      case (Inr r)
      obtain inst off' where r: "r = (inst, off')" by (cases r)
      with Inr True "1.prems"
      have "read_instances env v hbt n (Suc i) off' (insts[i := Some inst]) = Inl e"
        by (simp add: read_instances.simps[of env v hbt n i off insts])
      with "1.IH"[OF True Inr[unfolded r] refl] show ?thesis by simp
    qed
  next
    case False
    with "1.prems" show ?thesis
      by (simp add: read_instances.simps[of env v hbt n i off insts])
  qed
qed

lemma initialize_DeveloperError_unchanged:
  assumes "initialize env c buf off = Inl (DeveloperError d, c')"
  shows "c' = c"
proof (cases "read_header buf off")
  case (Inl e)
  with assms show ?thesis by (simp add: initialize_def)
next
  case (Inr hdr)
  have "\<And>v hbt n insts. read_instances env v hbt n 0 0 insts \<noteq> Inl (DeveloperError d)"
    using read_instances_RangeError by fastforce
  with assms Inr show ?thesis
    by (auto simp: initialize_def Let_def new_view_def split: if_splits sum.splits option.splits)
qed

text \<open>
  C1. A buffer that fails the magic check, the version check or the check of the glTF
  format makes \<^verbatim>\<open>initialize\<close> throw the DeveloperError of that check, and the content
  the throw leaves is the content it was given: no field has been assigned. The result
  is a function of the buffer and the offset. More generally, whenever \<^verbatim>\<open>initialize\<close>
  throws a DeveloperError the content is unchanged.
\<close>

theorem initialize_format_error_no_mutation:
  "(getMagic buf (defaultValue off 0) \<noteq> ''i3dm'' \<longrightarrow>
      initialize env c buf off =
        Inl (DeveloperError (InvalidMagic (getMagic buf (defaultValue off 0))), c))
   \<and> (getMagic buf (defaultValue off 0) = ''i3dm''
        \<and> getUint32 buf (defaultValue off 0 + 4) = Inr v \<and> v \<noteq> 1 \<longrightarrow>
      initialize env c buf off = Inl (DeveloperError (UnsupportedVersion v), c))
   \<and> (getMagic buf (defaultValue off 0) = ''i3dm''
        \<and> getUint32 buf (defaultValue off 0 + 4) = Inr 1
        \<and> getUint32 buf (defaultValue off 0 + 12) = Inr bt
        \<and> getUint32 buf (defaultValue off 0 + 16) = Inr g
        \<and> getUint32 buf (defaultValue off 0 + 20) = Inr f
        \<and> getUint32 buf (defaultValue off 0 + 24) = Inr n
        \<and> f \<noteq> 0 \<and> f \<noteq> 1 \<longrightarrow>
      initialize env c buf off = Inl (DeveloperError (UnsupportedGltfFormat f), c))
   \<and> (\<forall>d c'. initialize env c buf off = Inl (DeveloperError d, c') \<longrightarrow> c' = c)"
proof (intro conjI impI allI)
  assume "getMagic buf (defaultValue off 0) \<noteq> ''i3dm''"
  then show "initialize env c buf off =
        Inl (DeveloperError (InvalidMagic (getMagic buf (defaultValue off 0))), c)"
    by (simp add: initialize_def read_header_bad_magic)
next
  assume "getMagic buf (defaultValue off 0) = ''i3dm''
        \<and> getUint32 buf (defaultValue off 0 + 4) = Inr v \<and> v \<noteq> 1"
  then show "initialize env c buf off = Inl (DeveloperError (UnsupportedVersion v), c)"
    by (simp add: initialize_def read_header_bad_version)
next
  assume "getMagic buf (defaultValue off 0) = ''i3dm''
        \<and> getUint32 buf (defaultValue off 0 + 4) = Inr 1
        \<and> getUint32 buf (defaultValue off 0 + 12) = Inr bt
        \<and> getUint32 buf (defaultValue off 0 + 16) = Inr g
        \<and> getUint32 buf (defaultValue off 0 + 20) = Inr f
        \<and> getUint32 buf (defaultValue off 0 + 24) = Inr n
        \<and> f \<noteq> 0 \<and> f \<noteq> 1"
  then have "read_header buf off = Inl (DeveloperError (UnsupportedGltfFormat f))"
    by (intro read_header_bad_format[where bt = bt and g = g and n = n]) simp_all
  then show "initialize env c buf off = Inl (DeveloperError (UnsupportedGltfFormat f), c)"
    by (simp add: initialize_def)
next
  fix d c'
  assume "initialize env c buf off = Inl (DeveloperError d, c')"
  then show "c' = c" by (rule initialize_DeveloperError_unchanged)
qed

lemma example_magic:
  "getMagic (i3dm_header_bytes v bt g f n) 0 = ''i3dm''"
  by (simp add: getMagic_def i3dm_header_bytes_def bytes_at_def char_of_def bit_Suc_0_iff)

lemma example_fields:
  "getUint32 (i3dm_header_bytes v bt g f n) 4 = Inr (unat v)"
  "getUint32 (i3dm_header_bytes v bt g f n) 12 = Inr (unat bt)"
  "getUint32 (i3dm_header_bytes v bt g f n) 16 = Inr (unat g)"
  "getUint32 (i3dm_header_bytes v bt g f n) 20 = Inr (unat f)"
  "getUint32 (i3dm_header_bytes v bt g f n) 24 = Inr (unat n)"
  by (simp_all add: getUint32_def i3dm_header_bytes_def bytes_at_def le_nat_def)

theorem initialize_format_error_no_mutation_witness:
  "initialize example_env example_new_content example_tile_bad_magic None =
     Inl (DeveloperError (InvalidMagic ''b3dm''), example_new_content)
   \<and> initialize example_env example_new_content example_tile_bad_version None =
     Inl (DeveloperError (UnsupportedVersion 2), example_new_content)
   \<and> initialize example_env example_new_content example_tile_bad_format None =
     Inl (DeveloperError (UnsupportedGltfFormat 2), example_new_content)"
proof -
  have m: "getMagic example_tile_bad_magic (defaultValue None 0) = ''b3dm''"
    by (simp add: getMagic_def example_tile_bad_magic_def bytes_at_def char_of_def bit_Suc_0_iff
        defaultValue_def)
  have 1: "initialize example_env example_new_content example_tile_bad_magic None =
     Inl (DeveloperError (InvalidMagic ''b3dm''), example_new_content)"
    using initialize_format_error_no_mutation
            [of example_tile_bad_magic None example_env example_new_content]
    by (simp add: m)
  have 2: "initialize example_env example_new_content example_tile_bad_version None =
     Inl (DeveloperError (UnsupportedVersion 2), example_new_content)"
    using initialize_format_error_no_mutation
            [of example_tile_bad_version None example_env example_new_content 2]
    by (simp add: example_tile_bad_version_def example_magic example_fields defaultValue_def)
  have 3: "initialize example_env example_new_content example_tile_bad_format None =
     Inl (DeveloperError (UnsupportedGltfFormat 2), example_new_content)"
    using initialize_format_error_no_mutation
            [of example_tile_bad_format None example_env example_new_content 1 0 0 2 0]
    by (simp add: example_tile_bad_format_def example_magic example_fields defaultValue_def)
  from 1 2 3 show ?thesis by simp
qed

lemma read_instance_at:
  assumes i: "i < n" and fits: "base + n * s \<le> length buf"
    and s: "s = 16 + (if hbt then 2 else 0)"
  shows "read_instance env (bytes_at buf base (n * s)) hbt i (i * s) =
           Inr (\<lparr> modelMatrix = eastNorthUpToFixedFrame env
                     (fromRadians env (of_nat (le_nat (bytes_at buf (base + i * s) 8)))
                        (of_nat (le_nat (bytes_at buf (base + i * s + 8) 8))) 0),
                   batchId = (if hbt then le_nat (bytes_at buf (base + i * s + 16) 2) else i) \<rparr>,
                Suc i * s)"
proof -
  let ?view = "bytes_at buf base (n * s)"
  have len: "length ?view = n * s" using fits by (rule length_bytes_at)
  have within: "i * s + s \<le> n * s" using i by (rule record_within)
  have s16: "16 \<le> s" using s by simp
  have s18: "hbt \<Longrightarrow> 18 \<le> s" using s by simp
  have next_off: "Suc i * s = i * s + 16 + (if hbt then 2 else 0)" using s by simp
  have lon: "getFloat64 ?view (i * s) = Inr (of_nat (le_nat (bytes_at buf (base + i * s) 8)))"
    using within s16 by (simp add: getFloat64_def len bytes_at_bytes_at)
  have lat: "getFloat64 ?view (i * s + 8) =
               Inr (of_nat (le_nat (bytes_at buf (base + i * s + 8) 8)))"
    using within s16 by (simp add: getFloat64_def len bytes_at_bytes_at add.assoc)
  have bid: "hbt \<Longrightarrow>
      getUint16 ?view (i * s + 16) = Inr (le_nat (bytes_at buf (base + i * s + 16) 2))"
    using within s18 by (simp add: getUint16_def len bytes_at_bytes_at add.assoc)
  have "read_instance env ?view hbt i (i * s) =
           Inr (\<lparr> modelMatrix = eastNorthUpToFixedFrame env
                     (fromRadians env (of_nat (le_nat (bytes_at buf (base + i * s) 8)))
                        (of_nat (le_nat (bytes_at buf (base + i * s + 8) 8))) 0),
                   batchId = (if hbt then le_nat (bytes_at buf (base + i * s + 16) 2) else i) \<rparr>,
                i * s + 16 + (if hbt then 2 else 0))"
  proof (cases hbt)
    case True
    then show ?thesis
      by (simp add: read_instance_def lon lat bid Let_def sizeOfFloat64_def sizeOfUint16_def
          add.assoc)
  next
    case False
    then show ?thesis
      by (simp add: read_instance_def lon lat Let_def sizeOfFloat64_def add.assoc)
  qed
  then show ?thesis by (simp only: next_off)
qed

lemma read_instances_spec:
  assumes fits: "base + n * s \<le> length buf"
    and s: "s = 16 + (if hbt then 2 else 0)"
    and i: "i \<le> n" and len: "length insts = n"
  shows "\<exists>insts'. read_instances env (bytes_at buf base (n * s)) hbt n i (i * s) insts = Inr insts'
           \<and> length insts' = n
           \<and> (\<forall>k<n. insts' ! k =
                 (if k < i then insts ! k
                  else Some \<lparr> modelMatrix = eastNorthUpToFixedFrame env
                     (fromRadians env (of_nat (le_nat (bytes_at buf (base + k * s) 8)))
                        (of_nat (le_nat (bytes_at buf (base + k * s + 8) 8))) 0),
                   batchId = (if hbt then le_nat (bytes_at buf (base + k * s + 16) 2) else k) \<rparr>))"
  using i len
proof (induction "n - i" arbitrary: i insts)
  case 0
  then have "i = n" by simp
  with 0 show ?case
    by (simp add: read_instances.simps[of env "bytes_at buf base (n * s)" hbt n n "n * s" insts])
next
  case (Suc d)
  let ?view = "bytes_at buf base (n * s)"
  let ?dec = "\<lambda>k. \<lparr> modelMatrix = eastNorthUpToFixedFrame env
                     (fromRadians env (of_nat (le_nat (bytes_at buf (base + k * s) 8)))
                        (of_nat (le_nat (bytes_at buf (base + k * s + 8) 8))) 0),
                   batchId = (if hbt then le_nat (bytes_at buf (base + k * s + 16) 2) else k) \<rparr>"
  from Suc.hyps(2) have i: "i < n" by simp
  have step: "read_instance env ?view hbt i (i * s) = Inr (?dec i, Suc i * s)"
    by (rule read_instance_at[OF i fits s])
  have unfold: "read_instances env ?view hbt n i (i * s) insts =
                read_instances env ?view hbt n (Suc i) (Suc i * s) (insts[i := Some (?dec i)])"
    using i by (simp add: read_instances.simps[of env ?view hbt n i "i * s" insts] step)
  from Suc.hyps(2) have d: "d = n - Suc i" by simp
  from i have le: "Suc i \<le> n" by simp
  from Suc.prems have len': "length (insts[i := Some (?dec i)]) = n" by simp
  from Suc.hyps(1)[OF d le len'] obtain insts' where
    run: "read_instances env ?view hbt n (Suc i) (Suc i * s) (insts[i := Some (?dec i)]) = Inr insts'"
    and l: "length insts' = n"
    and nth: "\<forall>k<n. insts' ! k =
                 (if k < Suc i then (insts[i := Some (?dec i)]) ! k else Some (?dec k))"
    by blast
  have "\<forall>k<n. insts' ! k = (if k < i then insts ! k else Some (?dec k))"
  proof (intro allI impI)
    fix k assume k: "k < n"
    show "insts' ! k = (if k < i then insts ! k else Some (?dec k))"
    proof (cases "k = i")
      case True
      with nth k Suc.prems show ?thesis by simp
    next
      case False
      with nth k show ?thesis by (simp add: less_Suc_eq)
    qed
  qed
  with unfold run l show ?case by simp
qed

text \<open>
  C3. For a buffer whose header passes the checks (\<open>read_header\<close> returns the header
  fields), whose batch table parses when there is one, and which is long enough for the
  records its header announces, \<^verbatim>\<open>initialize\<close> returns normally, and instance \<open>i\<close> of
  the collection it builds is \<open>decoded_instance\<close>: longitude and latitude are the two
  little-endian doubles at the start of record \<open>i\<close>, the height is \<open>0.0\<close>, and the batch
  id is the little-endian 16-bit value that follows them when the batch table length is
  positive, and \<open>i\<close> otherwise. The header fields are the little-endian 32-bit values
  at offsets 12, 16, 20 and 24 from the start.
\<close>

theorem initialize_decodes_instances:
  assumes hdr: "read_header buf off = Inr hdr"
    and json: "0 < hd_batchTableByteLength hdr \<longrightarrow>
                 JSON_parse env (bytes_at buf (hd_end hdr) (hd_batchTableByteLength hdr)) \<noteq> None"
    and fits: "instances_offset hdr + hd_instancesLength hdr * record_size hdr \<le> length buf"
  shows "\<exists>c' m. initialize env c buf off = Inr c'
           \<and> modelInstanceCollection c' = Some m
           \<and> length (mic_instances m) = hd_instancesLength hdr
           \<and> (\<forall>i<hd_instancesLength hdr.
                 mic_instances m ! i = Some (decoded_instance env buf hdr i))
           \<and> hd_end hdr = defaultValue off 0 + 28
           \<and> getUint32 buf (defaultValue off 0 + 12) = Inr (hd_batchTableByteLength hdr)
           \<and> getUint32 buf (defaultValue off 0 + 16) = Inr (hd_gltfByteLength hdr)
           \<and> getUint32 buf (defaultValue off 0 + 24) = Inr (hd_instancesLength hdr)"
proof -
  let ?bt = "hd_batchTableByteLength hdr"
  let ?n = "hd_instancesLength hdr"
  let ?hbt = "0 < ?bt"
  let ?s = "record_size hdr"
  let ?base = "instances_offset hdr"
  let ?btr0 = "\<lparr> btr_featuresLength = ?n, batchTable = None \<rparr> :: 'a batch_table_resources"
  have s: "?s = 16 + (if ?hbt then 2 else 0)" by (simp add: record_size_def)
  obtain btr where table:
    "(if ?hbt
      then (case JSON_parse env (bytes_at buf (hd_end hdr) ?bt) of
              None \<Rightarrow> Inl SyntaxError
            | Some j \<Rightarrow> Inr (?btr0\<lparr>batchTable := Some j\<rparr>, hd_end hdr + ?bt))
      else Inr (?btr0, hd_end hdr)) = Inr (btr, hd_end hdr + ?bt)"
    using json by (cases ?hbt) auto
  have gltf: "new_view buf (hd_end hdr + ?bt) (hd_gltfByteLength hdr) =
                Inr (bytes_at buf (hd_end hdr + ?bt) (hd_gltfByteLength hdr))"
    using fits by (simp add: new_view_def instances_offset_def)
  have view: "new_view buf ?base (?n * ?s) = Inr (bytes_at buf ?base (?n * ?s))"
    using fits by (simp add: new_view_def)
  from read_instances_spec[OF fits s, of 0 "replicate ?n None" env]
  obtain insts' where
    run: "read_instances env (bytes_at buf ?base (?n * ?s)) ?hbt ?n 0 0 (replicate ?n None) = Inr insts'"
    and len: "length insts' = ?n"
    and nth: "\<forall>k<?n. insts' ! k =
                 Some \<lparr> modelMatrix = eastNorthUpToFixedFrame env
                     (fromRadians env (of_nat (le_nat (bytes_at buf (?base + k * ?s) 8)))
                        (of_nat (le_nat (bytes_at buf (?base + k * ?s + 8) 8))) 0),
                   batchId = (if ?hbt then le_nat (bytes_at buf (?base + k * ?s + 16) 2) else k) \<rparr>"
    by auto
  have dec: "\<forall>k<?n. insts' ! k = Some (decoded_instance env buf hdr k)"
    using nth by (simp add: decoded_instance_def Let_def)
  have size: "sizeOfFloat64 * 2 + (if ?hbt then sizeOfUint16 else 0) = ?s"
    by (simp add: record_size_def sizeOfFloat64_def sizeOfUint16_def)
  have base: "hd_end hdr + ?bt + hd_gltfByteLength hdr = ?base"
    by (simp add: instances_offset_def)
  have "\<exists>c' m. initialize env c buf off = Inr c' \<and> modelInstanceCollection c' = Some m
           \<and> mic_instances m = insts'"
    by (simp add: initialize_def hdr Let_def table gltf size base view run)
  with len dec read_header_ok[OF hdr] show ?thesis by auto
qed

lemma example_header:
  "read_header example_tile_with_batch_table None =
     Inr \<lparr> hd_batchTableByteLength = 2, hd_gltfByteLength = 1, hd_gltfFormat = 1,
           hd_instancesLength = 2, hd_end = 28 \<rparr>"
  by (simp add: read_header_def example_tile_with_batch_table_def i3dm_header_bytes_def
      getMagic_def getUint32_def bytes_at_def le_nat_def char_of_def bit_Suc_0_iff
      defaultValue_def sizeOfUint32_def Let_def)

lemma list_of_length_2: "length xs = 2 \<Longrightarrow> xs = [xs ! 0, xs ! 1]"
  by (cases xs; cases "tl xs") auto

theorem initialize_decodes_instances_witness:
  "\<exists>c' m. initialize example_env example_new_content example_tile_with_batch_table None = Inr c'
     \<and> modelInstanceCollection c' = Some m
     \<and> mic_instances m = [Some \<lparr> modelMatrix = (1, 2, 0), batchId = 5 \<rparr>,
                          Some \<lparr> modelMatrix = (3, 4, 0), batchId = 256 \<rparr>]"
proof -
  let ?hdr = "\<lparr> hd_batchTableByteLength = 2, hd_gltfByteLength = 1, hd_gltfFormat = 1,
           hd_instancesLength = 2, hd_end = 28 \<rparr>"
  have json: "0 < hd_batchTableByteLength ?hdr \<longrightarrow>
      JSON_parse example_env
        (bytes_at example_tile_with_batch_table (hd_end ?hdr) (hd_batchTableByteLength ?hdr)) \<noteq> None"
    by (simp add: example_env_def example_tile_with_batch_table_def i3dm_header_bytes_def
        bytes_at_def)
  have fits: "instances_offset ?hdr + hd_instancesLength ?hdr * record_size ?hdr
                \<le> length example_tile_with_batch_table"
    by (simp add: instances_offset_def record_size_def example_tile_with_batch_table_def
        i3dm_header_bytes_def)
  from initialize_decodes_instances[OF example_header json fits, of example_new_content]
  obtain c' m where
    run: "initialize example_env example_new_content example_tile_with_batch_table None = Inr c'"
    and m: "modelInstanceCollection c' = Some m"
    and len: "length (mic_instances m) = 2"
    and nth: "\<forall>i<2. mic_instances m ! i =
                Some (decoded_instance example_env example_tile_with_batch_table ?hdr i)"
    by auto
  have d0: "decoded_instance example_env example_tile_with_batch_table ?hdr 0 =
              \<lparr> modelMatrix = (1, 2, 0), batchId = 5 \<rparr>"
    by (simp add: decoded_instance_def instances_offset_def record_size_def example_env_def
        example_tile_with_batch_table_def i3dm_header_bytes_def bytes_at_def le_nat_def Let_def)
  have d1: "decoded_instance example_env example_tile_with_batch_table ?hdr 1 =
              \<lparr> modelMatrix = (3, 4, 0), batchId = 256 \<rparr>"
    by (simp add: decoded_instance_def instances_offset_def record_size_def example_env_def
        example_tile_with_batch_table_def i3dm_header_bytes_def bytes_at_def le_nat_def Let_def)
  have "(0::nat) < 2" and "(1::nat) < 2" by simp_all
  with nth have "mic_instances m ! 0 =
                   Some (decoded_instance example_env example_tile_with_batch_table ?hdr 0)"
    and "mic_instances m ! 1 =
                   Some (decoded_instance example_env example_tile_with_batch_table ?hdr 1)"
    by blast+
  then have "mic_instances m ! 0 = Some \<lparr> modelMatrix = (1, 2, 0), batchId = 5 \<rparr>"
    and "mic_instances m ! 1 = Some \<lparr> modelMatrix = (3, 4, 0), batchId = 256 \<rparr>"
    unfolding d0 d1 by blast+
  with list_of_length_2[OF len]
  have "mic_instances m = [Some \<lparr> modelMatrix = (1, 2, 0), batchId = 5 \<rparr>,
                          Some \<lparr> modelMatrix = (3, 4, 0), batchId = 256 \<rparr>]"
    by simp
  with run m show ?thesis by blast
qed


section \<open>Verification: tile content state machine\<close>

lemma initialize_keeps_readyPromise:
  "initialize env c buf off = Inl (e, c') \<Longrightarrow>
     readyPromise c' = readyPromise c \<and> state c' = state c
     \<and> processingPromise c' = processingPromise c
     \<and> modelInstanceCollection c' = modelInstanceCollection c"
  "initialize env c buf off = Inr c' \<Longrightarrow> readyPromise c' = readyPromise c \<and> state c' = PROCESSING"
  by (auto simp: initialize_def Let_def split: sum.splits if_splits option.splits prod.splits)

lemma request_otherwise_settled:
  "readyPromise c \<noteq> Pending \<Longrightarrow> readyPromise (request_otherwise c e) = readyPromise c"
  by (cases "readyPromise c") (simp_all add: request_otherwise_def reject_def)

lemma deliver_settled:
  assumes "readyPromise c \<noteq> Pending"
  shows "readyPromise (deliver env c d) = readyPromise c"
proof (cases d)
  case (Delivered buf)
  show ?thesis
  proof (cases "isDestroyed c")
    case True
    with Delivered assms show ?thesis by (simp add: deliver_def request_otherwise_settled)
  next
    case False
    show ?thesis
    proof (cases "initialize env c buf None")
      case (Inl r)
      obtain e c' where r: "r = (e, c')" by (cases r)
      with Inl have "readyPromise c' = readyPromise c"
        using initialize_keeps_readyPromise(1) by blast
      with Inl r False Delivered assms show ?thesis
        by (simp add: deliver_def request_otherwise_settled)
    next
      case (Inr c')
      then have "readyPromise c' = readyPromise c"
        using initialize_keeps_readyPromise(2) by blast
      with Inr False Delivered show ?thesis by (simp add: deliver_def)
    qed
  qed
next
  case (DeliveryFailed e)
  with assms show ?thesis by (simp add: deliver_def request_otherwise_settled)
qed

lemma step_settled:
  assumes "readyPromise c \<noteq> Pending"
  shows "readyPromise (step env c ev) = readyPromise c"
proof (cases ev)
  case (Request a)
  then show ?thesis by (simp add: step_def request_def)
next
  case (Deliver d)
  with assms show ?thesis by (simp add: step_def deliver_settled)
next
  case CollectionReady
  with assms show ?thesis
    by (cases "readyPromise c") (simp_all add: step_def collection_ready_def resolve_def)
next
  case (CollectionFailed e)
  with assms show ?thesis
    by (cases "readyPromise c") (simp_all add: step_def collection_failed_def reject_def)
next
  case (Initialize buf off)
  show ?thesis
  proof (cases "initialize env c buf off")
    case (Inl r)
    obtain e c' where r: "r = (e, c')" by (cases r)
    with Inl have "readyPromise c' = readyPromise c"
      using initialize_keeps_readyPromise(1) by blast
    with Inl r Initialize show ?thesis by (simp add: step_def)
  next
    case (Inr c')
    then have "readyPromise c' = readyPromise c"
      using initialize_keeps_readyPromise(2) by blast
    with Inr Initialize show ?thesis by (simp add: step_def)
  qed
next
  case Destroy
  then show ?thesis by (simp add: step_def destroy_def destroyObject_def)
qed

lemma run_settled:
  "readyPromise c \<noteq> Pending \<Longrightarrow> readyPromise (run env c evs) = readyPromise c"
proof (induction evs arbitrary: c)
  case Nil
  then show ?case by (simp add: run_def)
next
  case (Cons ev evs)
  from Cons.prems have s: "readyPromise (step env c ev) = readyPromise c" by (rule step_settled)
  with Cons.prems have "readyPromise (step env c ev) \<noteq> Pending" by simp
  from Cons.IH[OF this] s show ?case by (simp add: run_def)
qed

lemma reject_not_Pending: "reject d e \<noteq> Pending"
  by (cases d) (simp_all add: reject_def)

lemma resolve_not_Pending: "resolve d \<noteq> Pending"
  by (cases d) (simp_all add: resolve_def)

lemma step_terminal_is_settled:
  assumes "terminal_is_settled c"
  shows "terminal_is_settled (step env c ev)"
proof (cases ev)
  case (Request a)
  with assms show ?thesis by (simp add: step_def request_def terminal_is_settled_def)
next
  case (Deliver d)
  have fail: "\<And>c' e. terminal_is_settled (request_otherwise c' e)"
    by (simp add: terminal_is_settled_def request_otherwise_def reject_not_Pending)
  show ?thesis
  proof (cases d)
    case (Delivered buf)
    show ?thesis
    proof (cases "isDestroyed c")
      case True
      with Delivered Deliver fail show ?thesis by (simp add: step_def deliver_def)
    next
      case False
      show ?thesis
      proof (cases "initialize env c buf None")
        case (Inl r)
        obtain e c' where "r = (e, c')" by (cases r)
        with Inl False Delivered Deliver fail show ?thesis by (simp add: step_def deliver_def)
      next
        case (Inr c')
        then have "state c' = PROCESSING" using initialize_keeps_readyPromise(2) by blast
        with Inr False Delivered Deliver show ?thesis
          by (simp add: step_def deliver_def terminal_is_settled_def)
      qed
    qed
  next
    case (DeliveryFailed e)
    with Deliver fail show ?thesis by (simp add: step_def deliver_def)
  qed
next
  case CollectionReady
  then show ?thesis
    by (simp add: step_def collection_ready_def terminal_is_settled_def resolve_not_Pending)
next
  case (CollectionFailed e)
  then show ?thesis
    by (simp add: step_def collection_failed_def terminal_is_settled_def reject_not_Pending)
next
  case (Initialize buf off)
  show ?thesis
  proof (cases "initialize env c buf off")
    case (Inl r)
    obtain e c' where r: "r = (e, c')" by (cases r)
    with Inl have "readyPromise c' = readyPromise c \<and> state c' = state c"
      using initialize_keeps_readyPromise(1) by blast
    with Inl r Initialize assms show ?thesis by (simp add: step_def terminal_is_settled_def)
  next
    case (Inr c')
    then have "state c' = PROCESSING" using initialize_keeps_readyPromise(2) by blast
    with Inr Initialize show ?thesis by (simp add: step_def terminal_is_settled_def)
  qed
next
  case Destroy
  with assms show ?thesis
    by (simp add: step_def destroy_def destroyObject_def terminal_is_settled_def)
qed

lemma run_terminal_is_settled:
  "terminal_is_settled c \<Longrightarrow> terminal_is_settled (run env c evs)"
proof (induction evs arbitrary: c)
  case Nil
  then show ?case by (simp add: run_def)
next
  case (Cons ev evs)
  from Cons.IH[OF step_terminal_is_settled[OF Cons.prems]] show ?case by (simp add: run_def)
qed

lemma new_content_terminal_is_settled:
  "terminal_is_settled (Instanced3DModel3DTileContentProvider ts t u)"
  by (simp add: terminal_is_settled_def Instanced3DModel3DTileContentProvider_def)

text \<open>
  C9. A content that any sequence of transitions has brought from its construction to
  the state READY or FAILED has a settled \<^verbatim>\<open>readyPromise\<close>, and no sequence of further
  transitions (a second readiness callback, a later failure, another request followed by
  its delivery or failure, another \<^verbatim>\<open>initialize\<close>, \<^verbatim>\<open>destroy\<close>) changes it: the
  notification stays resolved, or stays rejected with the same error.
\<close>

theorem readyPromise_settles_once:
  assumes "c = run env (Instanced3DModel3DTileContentProvider ts t u) before"
    and "state c = READY \<or> state c = FAILED"
  shows "readyPromise c \<noteq> Pending \<and> readyPromise (run env c further) = readyPromise c"
proof -
  have "terminal_is_settled c"
    unfolding assms(1) by (rule run_terminal_is_settled[OF new_content_terminal_is_settled])
  with assms(2) have settled: "readyPromise c \<noteq> Pending" by (simp add: terminal_is_settled_def)
  from run_settled[OF settled] settled show ?thesis by simp
qed

lemma run_snoc: "run env c (evs @ [ev]) = step env (run env c evs) ev"
  by (simp add: run_def)

theorem readyPromise_settles_once_witness:
  "state (run example_env example_new_content example_load) = READY
   \<and> readyPromise (run example_env example_new_content example_load) \<noteq> Pending
   \<and> readyPromise (run example_env (run example_env example_new_content example_load)
                      example_further_attempts)
       = readyPromise (run example_env example_new_content example_load)"
proof -
  have load: "example_load = butlast example_load @ [CollectionReady]"
    by (simp add: example_load_def)
  have ready: "state (run example_env example_new_content example_load) = READY"
    by (subst load, subst run_snoc) (simp add: step_def collection_ready_def)
  from readyPromise_settles_once
         [of "run example_env example_new_content example_load" example_env
             "\<lparr> baseUrl = ''base/'' \<rparr>" "\<lparr> distanceToCamera = 0, contentBoundingVolume = 0 \<rparr>"
             "''tile.i3dm''" example_load example_further_attempts]
       ready
  show ?thesis by (simp add: example_new_content_def)
qed

text \<open>
  C2 (as amended). When the bytes of a scheduled request arrive at a content that has
  been destroyed, the continuation sees the destroyed flag and does not call
  \<^verbatim>\<open>initialize\<close>: the state does not become PROCESSING, the processing notification is
  left as it was and no decoded data is stored. The rejection it returns reaches the
  \<^verbatim>\<open>otherwise\<close> handler of the same chain, so the state becomes FAILED and
  \<^verbatim>\<open>readyPromise\<close> is rejected with the reason \<^verbatim>\<open>tileset is destroyed\<close> (unless it was
  settled before).
\<close>

theorem destroyed_delivery_discarded:
  "state (deliver env (destroy c) (Delivered buf)) = FAILED
   \<and> state (deliver env (destroy c) (Delivered buf)) \<noteq> PROCESSING
   \<and> processingPromise (deliver env (destroy c) (Delivered buf)) = processingPromise c
   \<and> modelInstanceCollection (deliver env (destroy c) (Delivered buf)) = None
   \<and> batchTableResources (deliver env (destroy c) (Delivered buf)) = None
   \<and> features (deliver env (destroy c) (Delivered buf)) = features c
   \<and> readyPromise (deliver env (destroy c) (Delivered buf))
       = reject (readyPromise c) (Rejection ''tileset is destroyed'')"
  by (simp add: deliver_def isDestroyed_def destroy_def destroyObject_def request_otherwise_def
      split: option.splits)

text \<open>
  C2 as stated fails at this input: a content is requested (state LOADING, notification
  pending), destroyed, and then receives its bytes; the terminal notification ends
  rejected with the reason \<^verbatim>\<open>tileset is destroyed\<close>, so the failure is surfaced.
\<close>

theorem destroyed_delivery_rejects_readyPromise:
  "state (request example_new_content True) = LOADING
   \<and> readyPromise (request example_new_content True) = Pending
   \<and> readyPromise (deliver example_env (destroy (request example_new_content True))
                      (Delivered example_tile_with_batch_table))
       = Rejected (Rejection ''tileset is destroyed'')"
  by (simp add: deliver_def isDestroyed_def destroy_def destroyObject_def request_otherwise_def
      request_def reject_def example_new_content_def Instanced3DModel3DTileContentProvider_def)

section \<open>Verification: binary64 rounding\<close>

subsection \<open>The exponent of a positive real\<close>

lemma floor_log2_bounds:
  assumes "0 < a"
  shows "2 powi (floor_log2 a) \<le> a" and "a < 2 powi (floor_log2 a + 1)"
proof -
  have "2 powi (floor_log2 a) \<le> a \<and> a < 2 powi (floor_log2 a + 1)"
  proof (cases "1 \<le> a")
    case True
    define n where "n = \<lfloor>a\<rfloor>"
    have n: "0 < n" using True by (simp add: n_def)
    define b where "b = bitlen n"
    have b1: "1 \<le> b" using n by (simp add: b_def bitlen_alt_def)
    from bitlen_bounds[OF n] have lo: "2 ^ nat (b - 1) \<le> n" and hi: "n < 2 ^ nat b"
      by (simp_all add: b_def)
    have fl: "floor_log2 a = b - 1" using True by (simp add: floor_log2_def n_def b_def)
    have "real_of_int (2 ^ nat (b - 1)) \<le> real_of_int n" using lo by (simp only: of_int_le_iff)
    also have "\<dots> \<le> a" by (simp add: n_def)
    finally have 1: "2 powi (b - 1) \<le> a" using b1 by (simp add: power_int_def)
    have "n + 1 \<le> 2 ^ nat b" using hi by simp
    then have "real_of_int (n + 1) \<le> real_of_int (2 ^ nat b)" by (simp only: of_int_le_iff)
    moreover have "a < real_of_int (n + 1)" by (simp add: n_def)
    ultimately have 2: "a < 2 powi b" using b1 by (simp add: power_int_def)
    from 1 2 fl show ?thesis by simp
  next
    case False
    then have a1: "a < 1" by simp
    define c where "c = \<lceil>1 / a\<rceil>"
    have "1 < 1 / a" using assms a1 by simp
    then have c2: "2 \<le> c" unfolding c_def by (simp add: le_ceiling_iff)
    define n where "n = c - 1"
    have n: "0 < n" using c2 by (simp add: n_def)
    define b where "b = bitlen n"
    have b1: "1 \<le> b" using n by (simp add: b_def bitlen_alt_def)
    from bitlen_bounds[OF n] have lo: "2 ^ nat (b - 1) \<le> n" and hi: "n < 2 ^ nat b"
      by (simp_all add: b_def)
    have fl: "floor_log2 a = - b" using False by (simp add: floor_log2_def n_def b_def c_def)
    have "1 / a \<le> real_of_int c" by (simp add: c_def)
    also have "c \<le> 2 ^ nat b" using hi by (simp add: n_def)
    then have "real_of_int c \<le> real_of_int (2 ^ nat b)" by (simp only: of_int_le_iff)
    finally have "1 / a \<le> 2 ^ nat b" by simp
    then have "1 \<le> 2 ^ nat b * a" using assms by (simp add: field_simps)
    then have 1: "2 powi (- b) \<le> a" using b1
      by (simp add: power_int_def field_simps)
    have "real_of_int (2 ^ nat (b - 1)) \<le> real_of_int n" using lo by (simp only: of_int_le_iff)
    also have "real_of_int n < 1 / a" unfolding n_def c_def
      by (metis ceiling_correct diff_less_eq of_int_1 of_int_diff)
    finally have "2 ^ nat (b - 1) < 1 / a" by simp
    then have "a < 1 / 2 ^ nat (b - 1)" using assms by (simp add: field_simps)
    moreover have "(2::real) powi (- b + 1) = 1 / 2 ^ nat (b - 1)" using b1
      by (simp add: power_int_def field_simps nat_diff_distrib power_inverse)
    ultimately have 2: "a < 2 powi (- b + 1)" by (simp only:)
    from 1 2 fl show ?thesis by simp
  qed
  then show "2 powi (floor_log2 a) \<le> a" and "a < 2 powi (floor_log2 a + 1)" by simp_all
qed

lemma floor_log2_unique:
  assumes "2 powi e \<le> a" "a < 2 powi (e + 1)"
  shows "floor_log2 a = e"
proof -
  have pos: "0 < a" using assms(1) by (smt (verit) zero_less_power_int)
  note b = floor_log2_bounds[OF pos]
  have "\<not> floor_log2 a < e"
  proof
    assume "floor_log2 a < e"
    then have "floor_log2 a + 1 \<le> e" by simp
    then have "(2::real) powi (floor_log2 a + 1) \<le> 2 powi e"
      by (intro power_int_increasing) simp_all
    with b(2) assms(1) show False by simp
  qed
  moreover have "\<not> e < floor_log2 a"
  proof
    assume "e < floor_log2 a"
    then have "e + 1 \<le> floor_log2 a" by simp
    then have "(2::real) powi (e + 1) \<le> 2 powi (floor_log2 a)"
      by (intro power_int_increasing) simp_all
    with b(1) assms(2) show False by simp
  qed
  ultimately show ?thesis by simp
qed

lemma round_half_even_of_int: "round_half_even (of_int n) = n"
  by (simp add: round_half_even_def)

lemma round_half_even_near:
  assumes "of_int m - 1 / 2 < q" "q < of_int m + 1 / 2"
  shows "round_half_even q = m"
proof (cases "of_int m \<le> q")
  case True
  then have "\<lfloor>q\<rfloor> = m" using assms(2) by (simp add: floor_unique)
  then show ?thesis using assms(2) by (simp add: round_half_even_def Let_def)
next
  case False
  then have "\<lfloor>q\<rfloor> = m - 1" using assms(1) by (intro floor_unique) simp_all
  then show ?thesis using assms(1) by (simp add: round_half_even_def Let_def)
qed

lemma round_half_even_error: "\<bar>of_int (round_half_even q) - q\<bar> \<le> 1 / 2"
proof -
  have "of_int \<lfloor>q\<rfloor> \<le> q" "q < of_int \<lfloor>q\<rfloor> + 1" by linarith+
  then show ?thesis by (auto simp: round_half_even_def Let_def)
qed

lemma round_half_even_ge:
  assumes "of_int n \<le> q"
  shows "n \<le> round_half_even q"
proof -
  have "n \<le> \<lfloor>q\<rfloor>" using assms by (simp add: le_floor_iff)
  then show ?thesis by (auto simp: round_half_even_def Let_def)
qed

lemma round_half_even_le:
  assumes "q \<le> of_int n"
  shows "round_half_even q \<le> n"
proof (cases "q = of_int n")
  case True
  then show ?thesis by (simp add: round_half_even_of_int)
next
  case False
  then have "q < of_int n" using assms by simp
  then have "\<lfloor>q\<rfloor> < n" by (simp add: floor_less_iff)
  then show ?thesis by (auto simp: round_half_even_def Let_def)
qed

lemma two_powi_less_cancel:
  assumes "(2::real) powi m < 2 powi n"
  shows "m < n"
proof (rule ccontr)
  assume "\<not> m < n"
  then have "n \<le> m" by simp
  then have "(2::real) powi n \<le> 2 powi m" by (intro power_int_increasing) simp_all
  with assms show False by simp
qed

lemma two_powi_shift: "(2::real) powi e = 2 powi (e - int n) * 2 ^ n"
  using power_int_add[of "2::real" "e - int n" "int n"] by simp

lemma exponent64_normal:
  assumes "2 powi e \<le> a" "a < 2 powi (e + 1)" "- 1022 \<le> e"
  shows "exponent64 a = e"
  using floor_log2_unique[OF assms(1,2)] assms(3) by (simp add: exponent64_def)

lemma exponent64_subnormal:
  assumes "0 < a" "a \<le> 2 powi (- 1022)"
  shows "exponent64 a = - 1022"
proof -
  have "2 powi (floor_log2 a) \<le> a" by (rule floor_log2_bounds(1)[OF assms(1)])
  with assms(2) have "(2::real) powi (floor_log2 a) < 2 powi (- 1022 + 1)"
    by (smt (verit) power_int_strict_increasing)
  then have "floor_log2 a < - 1022 + 1" by (rule two_powi_less_cancel)
  then show ?thesis by (simp add: exponent64_def)
qed

lemma exponent64_ge: "- 1022 \<le> exponent64 a"
  by (simp add: exponent64_def)

lemma exponent64_upper:
  assumes "0 < a"
  shows "a < 2 powi (exponent64 a + 1)"
proof -
  have "a < 2 powi (floor_log2 a + 1)" by (rule floor_log2_bounds(2)[OF assms])
  also have "(2::real) powi (floor_log2 a + 1) \<le> 2 powi (exponent64 a + 1)"
    by (intro power_int_increasing) (simp_all add: exponent64_def)
  finally show ?thesis .
qed

lemma is_double_0: "is_double 0"
  by (simp add: is_double_def)

lemma is_double_dyadic:
  assumes "\<bar>m\<bar> < 2 ^ 53" "- 1074 \<le> e" "e \<le> 971"
  shows "is_double (of_int m * 2 powi e)"
proof (cases "m = 0")
  case True
  then show ?thesis by (simp add: is_double_0)
next
  case False
  define a :: real where "a = of_int \<bar>m\<bar> * 2 powi e"
  have abs: "\<bar>of_int m * 2 powi e\<bar> = a" by (simp add: a_def abs_mult)
  have pos: "0 < a" using False by (simp add: a_def)
  have "real_of_int \<bar>m\<bar> < real_of_int (2 ^ 53)" using assms(1) by (simp only: of_int_less_iff)
  then have "a < 2 ^ 53 * 2 powi e" by (simp add: a_def)
  also have "\<dots> = 2 powi (e + 53)" using two_powi_shift[of "e + 53" 53] by simp
  finally have up: "a < 2 powi (e + 53)" .
  have "2 powi (floor_log2 a) \<le> a" by (rule floor_log2_bounds(1)[OF pos])
  with up have "(2::real) powi (floor_log2 a) < 2 powi (e + 53)" by simp
  then have "floor_log2 a < e + 53" by (rule two_powi_less_cancel)
  then have E: "exponent64 a \<le> e + 52" using assms(2) by (simp add: exponent64_def)
  define k where "k = nat (e + 52 - exponent64 a)"
  define u :: real where "u = 2 powi (exponent64 a - 52)"
  have u: "0 < u" by (simp add: u_def)
  have "e - int k = exponent64 a - 52" using E by (simp add: k_def)
  with two_powi_shift[of e k] have "(2::real) powi e = u * 2 ^ k" by (simp add: u_def)
  then have "a = of_int \<bar>m\<bar> * (u * 2 ^ k)" by (simp only: a_def)
  then have "a / u = of_int (\<bar>m\<bar> * 2 ^ k)" using u by simp
  then have "a / 2 powi (exponent64 a - 52) = of_int (\<bar>m\<bar> * 2 ^ k)" by (simp only: u_def)
  then have q: "a / 2 powi (exponent64 a - 52) = of_int \<lfloor>a / 2 powi (exponent64 a - 52)\<rfloor>"
    by (simp only: floor_of_int)
  have "(2::real) powi (e + 53) \<le> 2 powi 1024" using assms(3)
    by (intro power_int_increasing) simp_all
  with up have "a < 2 ^ 1024" by simp
  with q show ?thesis unfolding is_double_def abs Let_def by simp
qed

lemma round64_exact:
  assumes "is_double x"
  shows "round64 x = Double x"
proof (cases "x = 0")
  case True
  then show ?thesis by (simp add: round64_def)
next
  case False
  define u :: real where "u = 2 powi (exponent64 \<bar>x\<bar> - 52)"
  have u: "0 < u" by (simp add: u_def)
  from assms have lt: "\<bar>x\<bar> < 2 ^ 1024" and q: "\<bar>x\<bar> / u = of_int \<lfloor>\<bar>x\<bar> / u\<rfloor>"
    by (simp_all add: is_double_def Let_def u_def)
  have "round_half_even (\<bar>x\<bar> / u) = \<lfloor>\<bar>x\<bar> / u\<rfloor>"
    by (subst q) (simp only: round_half_even_of_int floor_of_int)
  then have "of_int (round_half_even (\<bar>x\<bar> / u)) * u = \<bar>x\<bar>"
    using q u by (simp add: field_simps)
  then show ?thesis using False lt
    by (simp add: round64_def Let_def u_def[symmetric] sgn_real_def)
qed

lemma round64_tiny:
  assumes "\<bar>x\<bar> < 2 powi (- 1075)"
  shows "round64 x = Double 0"
proof (cases "x = 0")
  case True
  then show ?thesis by (simp add: round64_def)
next
  case False
  then have pos: "0 < \<bar>x\<bar>" by simp
  have "(2::real) powi (- 1075) \<le> 2 powi (- 1022)" by (intro power_int_increasing) simp_all
  with assms have "\<bar>x\<bar> \<le> 2 powi (- 1022)" by simp
  then have E: "exponent64 \<bar>x\<bar> = - 1022" by (rule exponent64_subnormal[OF pos])
  have "(2::real) powi (- 1075) = 2 powi (- 1074) * (1 / 2)"
    using two_powi_shift[of "- 1074" 1] by simp
  with assms have "\<bar>x\<bar> / 2 powi (- 1074) < 1 / 2" by (simp add: field_simps)
  moreover have "0 \<le> \<bar>x\<bar> / 2 powi (- 1074)" by simp
  ultimately have "round_half_even (\<bar>x\<bar> / 2 powi (- 1074)) = 0"
    by (intro round_half_even_near) simp_all
  then show ?thesis using False E by (simp add: round64_def Let_def)
qed

lemma round_half_even_scaled_ge:
  assumes "2 powi E \<le> a"
  shows "(2::real) powi E \<le> of_int (round_half_even (a / 2 powi (E - 52))) * 2 powi (E - 52)"
proof -
  define v :: real where "v = 2 powi (E - 52)"
  have v: "0 < v" by (simp add: v_def)
  have pE: "(2::real) powi E = 2 ^ 52 * v" using two_powi_shift[of E 52] by (simp add: v_def)
  with assms have "real_of_int (2 ^ 52) \<le> a / v" using v by (simp add: field_simps)
  then have "2 ^ 52 \<le> round_half_even (a / v)" by (rule round_half_even_ge)
  then have "real_of_int (2 ^ 52) \<le> real_of_int (round_half_even (a / v))"
    by (simp only: of_int_le_iff)
  then have "real_of_int (2 ^ 52) * v \<le> real_of_int (round_half_even (a / v)) * v"
    using v by (intro mult_right_mono) simp_all
  moreover have "real_of_int (2 ^ 52) * v = 2 powi E" using pE by simp
  ultimately show ?thesis by (simp only: v_def)
qed

lemma round64_huge:
  assumes "2 ^ 1024 \<le> \<bar>x\<bar>"
  shows "round64 x = (if 0 < x then Double_PosInf else Double_NegInf)"
proof -
  have nz: "x \<noteq> 0" using assms by auto
  then have pos: "0 < \<bar>x\<bar>" by simp
  define E where "E = exponent64 \<bar>x\<bar>"
  define r :: real where
    "r = of_int (round_half_even (\<bar>x\<bar> / 2 powi (E - 52))) * 2 powi (E - 52)"
  have "\<bar>x\<bar> < 2 powi (E + 1)" unfolding E_def by (rule exponent64_upper[OF pos])
  with assms have "(2::real) powi 1024 < 2 powi (E + 1)" by simp
  then have E: "1024 < E + 1" by (rule two_powi_less_cancel)
  then have "E = floor_log2 \<bar>x\<bar>" by (simp add: E_def exponent64_def)
  then have "2 powi E \<le> \<bar>x\<bar>" using floor_log2_bounds(1)[OF pos] by simp
  then have "2 powi E \<le> r" unfolding r_def by (rule round_half_even_scaled_ge)
  moreover have "(2::real) powi 1024 \<le> 2 powi E" using E by (intro power_int_increasing) simp_all
  ultimately have "(2::real) powi 1024 \<le> r" by (rule order_trans[rotated])
  then have "2 ^ 1024 \<le> r" by simp
  then show ?thesis using nz by (simp add: round64_def Let_def r_def E_def)
qed

lemma round64_is_double:
  assumes "round64 x = Double y"
  shows "is_double y"
proof (cases "x = 0")
  case True
  with assms show ?thesis by (simp add: round64_def is_double_0)
next
  case False
  then have pos: "0 < \<bar>x\<bar>" by simp
  define E where "E = exponent64 \<bar>x\<bar>"
  define u :: real where "u = 2 powi (E - 52)"
  define k where "k = round_half_even (\<bar>x\<bar> / u)"
  have u: "0 < u" by (simp add: u_def)
  have E: "- 1022 \<le> E" by (simp add: E_def exponent64_ge)
  from assms False have r: "of_int k * u < 2 ^ 1024" and y: "y = sgn x * (of_int k * u)"
    by (simp_all add: round64_def Let_def u_def E_def k_def split: if_splits)
  have "0 \<le> \<bar>x\<bar> / u" using u by simp
  then have "real_of_int 0 \<le> \<bar>x\<bar> / u" by simp
  then have k0: "0 \<le> k" unfolding k_def by (rule round_half_even_ge)
  have "\<bar>x\<bar> < 2 powi (E + 1)" unfolding E_def by (rule exponent64_upper[OF pos])
  also have "(2::real) powi (E + 1) = 2 ^ 53 * u"
    using two_powi_shift[of "E + 1" 53] by (simp add: u_def)
  finally have "\<bar>x\<bar> / u \<le> real_of_int (2 ^ 53)" using u by (simp add: field_simps)
  then have k53: "k \<le> 2 ^ 53" unfolding k_def by (rule round_half_even_le)
  define s :: int where "s = (if 0 < x then 1 else - 1)"
  have sgn: "sgn x = of_int s" using False by (simp add: s_def sgn_real_def)
  show ?thesis
  proof (cases "k = 2 ^ 53")
    case True
    have "of_int k * u = 2 powi (E + 1)"
      using two_powi_shift[of "E + 1" 53] by (simp add: True u_def)
    with r have "(2::real) powi (E + 1) < 2 powi 1024" by simp
    then have "E + 1 < 1024" by (rule two_powi_less_cancel)
    then have "is_double (of_int (s * 2 ^ 52) * 2 powi (E - 51))" using E
      by (intro is_double_dyadic) (simp_all add: s_def abs_mult)
    moreover have "of_int (s * 2 ^ 52) * 2 powi (E - 51) = y"
      unfolding y sgn using two_powi_shift[of "E - 51" 1] by (simp add: True u_def)
    ultimately show ?thesis by simp
  next
    case False
    with k53 have k: "k < 2 ^ 53" by simp
    have "E \<le> 1023"
    proof (rule ccontr)
      assume "\<not> E \<le> 1023"
      then have big: "1024 \<le> E" by simp
      then have "E = floor_log2 \<bar>x\<bar>" by (simp add: E_def exponent64_def)
      then have "2 powi E \<le> \<bar>x\<bar>" using floor_log2_bounds(1)[OF pos] by simp
      then have "2 powi E \<le> of_int k * u" unfolding k_def u_def
        by (rule round_half_even_scaled_ge)
      moreover have "(2::real) powi 1024 \<le> 2 powi E" using big
        by (intro power_int_increasing) simp_all
      ultimately have "(2::real) powi 1024 \<le> of_int k * u" by (rule order_trans[rotated])
      then show False using r by simp
    qed
    then have "is_double (of_int (s * k) * 2 powi (E - 52))" using E k k0
      by (intro is_double_dyadic) (simp_all add: s_def abs_mult)
    moreover have "of_int (s * k) * 2 powi (E - 52) = y"
      unfolding y sgn by (simp add: u_def)
    ultimately show ?thesis by simp
  qed
qed

lemma two_powi_double: "(2::real) powi e * 2 powi e = 2 powi (2 * e)"
  using power_int_add[of "2::real" e e] by simp

lemma sqrt_of_square64:
  assumes dbl: "is_double x" and lo: "2 powi (- 511) \<le> x" and hi: "x < 2 ^ 512"
  shows "\<exists>y. round64 (x * x) = Double y \<and> 0 \<le> y \<and> round64 (sqrt y) = Double x"
proof -
  have pos: "0 < x" using lo by (smt (verit) zero_less_power_int)
  define e where "e = floor_log2 x"
  have xlo: "2 powi e \<le> x" and xhi: "x < 2 powi (e + 1)"
    unfolding e_def by (rule floor_log2_bounds[OF pos])+
  have "(2::real) powi (- 511) < 2 powi (e + 1)" using lo xhi by simp
  then have "- 511 < e + 1" by (rule two_powi_less_cancel)
  then have e_lo: "- 511 \<le> e" by simp
  have "(2::real) powi e < 2 powi 512" using xlo hi by simp
  then have "e < 512" by (rule two_powi_less_cancel)
  then have e_hi: "e \<le> 511" by simp
  have ex: "exponent64 x = e" using xlo xhi e_lo by (intro exponent64_normal) simp_all
  define t :: real where "t = 2 powi (e - 52)"
  have t: "0 < t" by (simp add: t_def)
  define m where "m = \<lfloor>x / t\<rfloor>"
  have "x / t = of_int m" using dbl pos by (simp add: is_double_def Let_def ex t_def m_def)
  then have x: "x = of_int m * t" using t by (simp add: field_simps)
  have pe: "(2::real) powi e = 2 ^ 52 * t" using two_powi_shift[of e 52] by (simp add: t_def)
  have pe1: "(2::real) powi (e + 1) = 2 ^ 53 * t" using two_powi_shift[of "e + 1" 53] by (simp add: t_def)
  have "real_of_int (2 ^ 52) * t \<le> of_int m * t" using xlo pe x by simp
  then have "real_of_int (2 ^ 52) \<le> of_int m" using t by (simp only: mult_le_cancel_right_pos)
  then have m_lo: "2 ^ 52 \<le> m" by (simp only: of_int_le_iff)
  have "of_int m * t < real_of_int (2 ^ 53) * t" using xhi pe1 x by simp
  then have "real_of_int m < real_of_int (2 ^ 53)" using t by (simp only: mult_less_cancel_right_pos)
  then have m_hi: "m < 2 ^ 53" by (simp only: of_int_less_iff)
  define z where "z = x * x"
  have zpos: "0 < z" using pos by (simp add: z_def)
  have tt: "t * t = 2 powi (2 * e - 104)" unfolding t_def by (simp add: two_powi_double)
  have "2 powi e * 2 powi e \<le> x * x" using xlo pos by (intro mult_mono) simp_all
  then have zlo: "2 powi (2 * e) \<le> z" by (simp add: z_def two_powi_double)
  have "x * x < 2 powi (e + 1) * 2 powi (e + 1)" using xhi pos by (intro mult_strict_mono) simp_all
  then have zhi: "z < 2 powi (2 * e + 2)" by (simp add: z_def two_powi_double)
  define E where "E = floor_log2 z"
  have Elo: "2 powi E \<le> z" and Ehi: "z < 2 powi (E + 1)"
    unfolding E_def by (rule floor_log2_bounds[OF zpos])+
  have "(2::real) powi (2 * e) < 2 powi (E + 1)" using zlo Ehi by simp
  then have "2 * e < E + 1" by (rule two_powi_less_cancel)
  then have E_ge: "2 * e \<le> E" by simp
  have "(2::real) powi E < 2 powi (2 * e + 2)" using Elo zhi by simp
  then have "E < 2 * e + 2" by (rule two_powi_less_cancel)
  then have E_le: "E \<le> 2 * e + 1" by simp
  have ez: "exponent64 z = E" using Elo Ehi E_ge e_lo by (intro exponent64_normal) simp_all
  define U :: real where "U = 2 powi (E - 52)"
  have U: "0 < U" by (simp add: U_def)
  define k where "k = round_half_even (z / U)"
  define y where "y = of_int k * U"
  have "\<bar>of_int k - z / U\<bar> \<le> 1 / 2" unfolding k_def by (rule round_half_even_error)
  then have "\<bar>of_int k - z / U\<bar> * U \<le> 1 / 2 * U" using U by (intro mult_right_mono) simp_all
  moreover have "\<bar>of_int k - z / U\<bar> * U = \<bar>y - z\<bar>"
  proof -
    have "\<bar>of_int k - z / U\<bar> * U = \<bar>(of_int k - z / U) * U\<bar>" using U by (simp add: abs_mult)
    moreover have "(of_int k - z / U) * U = y - z" using U by (simp add: y_def left_diff_distrib)
    ultimately show ?thesis by simp
  qed
  ultimately have err: "\<bar>y - z\<bar> \<le> U / 2" by simp
  have xt: "x * t = of_int m * (t * t)" by (simp add: x)
  have key: "U / 2 < (of_int m - 1 / 4) * (t * t)"
  proof (cases "E = 2 * e")
    case True
    have "U = 2 ^ 52 * (t * t)" using two_powi_shift[of "2 * e - 52" 52]
      by (simp add: U_def True tt)
    then have "U / 2 = 2 ^ 51 * (t * t)" by simp
    moreover have "(2::real) ^ 51 < of_int m - 1 / 4"
    proof -
      have "real_of_int (2 ^ 52) \<le> of_int m" using m_lo by (simp only: of_int_le_iff)
      then show ?thesis by simp
    qed
    ultimately show ?thesis using t by simp
  next
    case False
    with E_ge E_le have E1: "E = 2 * e + 1" by simp
    have U53: "U = 2 ^ 53 * (t * t)" using two_powi_shift[of "2 * e - 51" 53]
      by (simp add: U_def E1 tt)
    then have U2: "U / 2 = 2 ^ 52 * (t * t)" by simp
    have "(2::real) powi E = 2 ^ 105 * (t * t)" using two_powi_shift[of "2 * e + 1" 105]
      by (simp add: E1 tt)
    with Elo have "2 ^ 105 * (t * t) \<le> (of_int m * of_int m) * (t * t)"
      by (simp add: z_def x mult_ac)
    then have "(2::real) ^ 105 \<le> of_int m * of_int m" using t
      by (simp only: mult_le_cancel_right_pos zero_less_mult_iff simp_thms)
    then have "real_of_int (2 ^ 105) \<le> real_of_int (m * m)" by simp
    then have mm: "2 ^ 105 \<le> m * m" by (simp only: of_int_le_iff)
    have "\<not> m \<le> 2 ^ 52"
    proof
      assume "m \<le> 2 ^ 52"
      then have "m * m \<le> 2 ^ 52 * 2 ^ 52" using m_lo by (intro mult_mono) simp_all
      with mm show False by simp
    qed
    then have "2 ^ 52 + 1 \<le> m" by simp
    then have "real_of_int (2 ^ 52 + 1) \<le> of_int m" by (simp only: of_int_le_iff)
    then have "(2::real) ^ 52 < of_int m - 1 / 4" by simp
    then show ?thesis using t U2 by simp
  qed
  have half_lt: "t / 2 < x"
  proof -
    have "real_of_int (2 ^ 52) \<le> of_int m" using m_lo by (simp only: of_int_le_iff)
    then have "1 / 2 < real_of_int m" by simp
    then have "1 / 2 * t < of_int m * t" using t by (simp only: mult_less_cancel_right_pos)
    then show ?thesis by (simp add: x)
  qed
  have low_sq: "(x - t / 2)\<^sup>2 = z - (of_int m - 1 / 4) * (t * t)"
    by (simp add: power2_eq_square z_def x algebra_simps)
  have up_sq: "(x + t / 2)\<^sup>2 = z + (of_int m + 1 / 4) * (t * t)"
    by (simp add: power2_eq_square z_def x algebra_simps)
  have "(of_int m - 1 / 4) * (t * t) < (of_int m + 1 / 4) * (t * t)" using t by simp
  with key have key2: "U / 2 < (of_int m + 1 / 4) * (t * t)" by simp
  have y_lo: "(x - t / 2)\<^sup>2 < y" using err key unfolding low_sq by linarith
  have y_hi: "y < (x + t / 2)\<^sup>2" using err key2 unfolding up_sq by linarith
  have ypos: "0 < y" using y_lo by (smt (verit) zero_le_power2)
  have s_lo: "x - t / 2 < sqrt y" using y_lo by (rule real_less_rsqrt)
  have s_hi: "sqrt y < x + t / 2" using y_hi half_lt pos t by (intro real_less_lsqrt) simp_all
  have top: "x + t / 2 \<le> 2 powi (e + 1)"
  proof -
    have "m + 1 \<le> 2 ^ 53" using m_hi by simp
    then have "real_of_int (m + 1) \<le> real_of_int (2 ^ 53)" by (simp only: of_int_le_iff)
    then have "real_of_int (m + 1) * t \<le> real_of_int (2 ^ 53) * t" using t
      by (simp only: mult_le_cancel_right_pos)
    then have "(of_int m + 1) * t \<le> 2 ^ 53 * t" by simp
    then have "x + t \<le> 2 powi (e + 1)" unfolding pe1 x by (simp add: distrib_right)
    then show ?thesis using t by simp
  qed
  have "(x + t / 2)\<^sup>2 \<le> (2 powi (e + 1))\<^sup>2" using top pos t by (intro power_mono) simp_all
  also have "((2::real) powi (e + 1))\<^sup>2 = 2 powi (2 * e + 2)"
    by (simp add: power2_eq_square two_powi_double)
  also have "(2::real) powi (2 * e + 2) \<le> 2 powi 1024" using e_hi
    by (intro power_int_increasing) simp_all
  finally have "y < 2 powi 1024" using y_hi by simp
  then have y_fin: "\<not> 2 ^ 1024 \<le> y" by simp
  have r1: "round64 (x * x) = Double y"
    using zpos y_fin by (simp add: round64_def Let_def z_def[symmetric] ez U_def[symmetric]
        k_def[symmetric] y_def[symmetric])
  have "2 powi E \<le> y" unfolding y_def k_def U_def using Elo by (rule round_half_even_scaled_ge)
  moreover have "(2::real) powi (2 * e) \<le> 2 powi E" using E_ge by (intro power_int_increasing) simp_all
  ultimately have "(2 powi e)\<^sup>2 \<le> y" by (simp add: power2_eq_square two_powi_double)
  then have s_ge: "2 powi e \<le> sqrt y" by (rule real_le_rsqrt)
  have s_lt: "sqrt y < 2 powi (e + 1)" using s_hi top by simp
  have es: "exponent64 (sqrt y) = e" using s_ge s_lt e_lo by (intro exponent64_normal) simp_all
  have spos: "0 < sqrt y" using ypos by simp
  have "(of_int m - 1 / 2) * t < sqrt y" using s_lo by (simp add: x algebra_simps)
  then have q_lo: "of_int m - 1 / 2 < sqrt y / t" using t by (simp add: field_simps)
  have "sqrt y < (of_int m + 1 / 2) * t" using s_hi by (simp add: x algebra_simps)
  then have q_hi: "sqrt y / t < of_int m + 1 / 2" using t by (simp add: field_simps)
  have rm: "round_half_even (sqrt y / t) = m" using q_lo q_hi by (rule round_half_even_near)
  have "(2::real) ^ 512 \<le> 2 ^ 1024" by (intro power_increasing) simp_all
  with hi have "x < 2 ^ 1024" by (rule less_le_trans)
  then have r2: "round64 (sqrt y) = Double x"
    using spos by (simp add: round64_def Let_def es t_def[symmetric] rm x[symmetric])
  from r1 r2 ypos show ?thesis by (intro exI[of _ y]) simp
qed

subsection \<open>The operations return binary64 values\<close>

lemma round64_0: "round64 0 = Double 0"
  by (simp add: round64_def)

lemma wf_round64: "wf_double (round64 x)"
  by (cases "round64 x") (simp_all add: round64_is_double)

lemma wf_num_add: "wf_double (num_add a b)"
  by (cases a; cases b) (simp_all add: wf_round64)

lemma wf_num_sub: "wf_double (num_sub a b)"
  by (simp add: num_sub_def wf_num_add)

lemma wf_num_mul: "wf_double (num_mul a b)"
  by (cases a; cases b) (simp_all add: wf_round64 infinity_of_sign_def)

lemma num_add_zero_left:
  assumes "wf_double v"
  shows "num_add (Double 0) v = v"
  using assms by (cases v) (simp_all add: round64_exact)

lemma num_add_zero_right:
  assumes "wf_double v"
  shows "num_add v (Double 0) = v"
  using assms by (cases v) (simp_all add: round64_exact)

lemma num_sqrt_0: "num_sqrt (Double 0) = Double 0"
  by (simp add: round64_0)

lemma num_gt_zero_asym:
  assumes "num_gt b (Double 0)"
  shows "\<not> num_gt (Double 0) b"
  using assms by (cases b) simp_all

lemma num_gt_zero_cases:
  assumes "num_gt v (Double 0)"
  shows "v = Double_PosInf \<or> (\<exists>x. v = Double x \<and> 0 < x)"
  using assms by (cases v) simp_all

lemma is_double_minus: "is_double (- x) = is_double x"
  by (simp add: is_double_def)

lemma round64_minus: "round64 (- x) = num_neg (round64 x)"
  by (simp add: round64_def Let_def sgn_real_def)

lemma num_sub_swap:
  assumes "num_sub (Double a) (Double b) = Double t"
  shows "num_sub (Double b) (Double a) = Double (- t)"
proof -
  have "round64 (a - b) = Double t" using assms by (simp add: num_sub_def)
  moreover have "b - a = - (a - b)" by simp
  ultimately have "round64 (b - a) = Double (- t)" by (simp only: round64_minus num_neg.simps)
  then show ?thesis by (simp add: num_sub_def)
qed

subsection \<open>The square of a number and the square root of the square\<close>

lemma square_underflows:
  assumes "0 < dx" "dx \<le> 2 powi (- 538)"
  shows "num_mul (Double dx) (Double dx) = Double 0"
proof -
  have "dx * dx \<le> 2 powi (- 538) * 2 powi (- 538)" using assms by (intro mult_mono) simp_all
  also have "(2::real) powi (- 538) * 2 powi (- 538) = 2 powi (- 1076)"
    using two_powi_double[of "- 538"] by simp
  also have "(2::real) powi (- 1076) < 2 powi (- 1075)"
    by (intro power_int_strict_increasing) simp_all
  finally have "\<bar>dx * dx\<bar> < 2 powi (- 1075)" using assms(1) by (simp add: abs_mult)
  then show ?thesis by (simp add: round64_tiny)
qed

lemma square_overflows:
  assumes "2 ^ 512 \<le> dx"
  shows "num_mul (Double dx) (Double dx) = Double_PosInf"
proof -
  have pos: "0 < dx" using assms by (smt (verit) zero_less_power)
  have "(2::real) ^ 512 * 2 ^ 512 \<le> dx * dx" using assms by (intro mult_mono) simp_all
  moreover have "(2::real) ^ 512 * 2 ^ 512 = 2 ^ 1024" by (simp flip: power_add)
  ultimately have "2 ^ 1024 \<le> \<bar>dx * dx\<bar>" by (simp add: abs_mult)
  then have "round64 (dx * dx) = (if 0 < dx * dx then Double_PosInf else Double_NegInf)"
    by (rule round64_huge)
  then show ?thesis using pos by simp
qed

lemma sqrt_of_square:
  assumes "is_double dx" "2 powi (- 511) \<le> dx" "dx < 2 ^ 512"
  shows "num_sqrt (num_mul (Double dx) (Double dx)) = Double dx"
proof -
  from sqrt_of_square64[OF assms] obtain y where
    "round64 (dx * dx) = Double y" "0 \<le> y" "round64 (sqrt y) = Double dx" by blast
  then show ?thesis by simp
qed

subsection \<open>The square root computed with integers\<close>

lemma floor_sqrt_bounds:
  assumes "0 \<le> n"
  shows "0 \<le> floor_sqrt n \<and> floor_sqrt n * floor_sqrt n \<le> n
           \<and> n < (floor_sqrt n + 1) * (floor_sqrt n + 1)"
  using assms
proof (induction n rule: floor_sqrt.induct)
  case (1 n)
  show ?case
  proof (cases "n \<le> 0")
    case True
    with "1.prems" have "n = 0" by simp
    then show ?thesis by (simp add: floor_sqrt.simps[of 0])
  next
    case False
    define r0 where "r0 = floor_sqrt (n div 4)"
    have "0 \<le> n div 4" using False by simp
    from "1.IH"[OF False this]
    have r0: "0 \<le> r0" and lo: "r0 * r0 \<le> n div 4" and hi: "n div 4 < (r0 + 1) * (r0 + 1)"
      by (simp_all add: r0_def)
    have n4: "4 * (n div 4) \<le> n" "n < 4 * (n div 4) + 4" by simp_all
    have a: "(2 * r0) * (2 * r0) \<le> n"
    proof -
      have "(2 * r0) * (2 * r0) = 4 * (r0 * r0)" by simp
      also have "\<dots> \<le> 4 * (n div 4)" using lo by simp
      finally show ?thesis using n4(1) by simp
    qed
    have b: "n < (2 * r0 + 2) * (2 * r0 + 2)"
    proof -
      have "n div 4 + 1 \<le> (r0 + 1) * (r0 + 1)" using hi by simp
      then have "4 * (n div 4 + 1) \<le> 4 * ((r0 + 1) * (r0 + 1))" by simp
      also have "4 * ((r0 + 1) * (r0 + 1)) = (2 * r0 + 2) * (2 * r0 + 2)" by (simp add: algebra_simps)
      finally show ?thesis using n4(2) by simp
    qed
    have s: "floor_sqrt n = (if (2 * r0 + 1) * (2 * r0 + 1) \<le> n then 2 * r0 + 1 else 2 * r0)"
      using False by (subst floor_sqrt.simps) (simp add: Let_def r0_def)
    show ?thesis
    proof (cases "(2 * r0 + 1) * (2 * r0 + 1) \<le> n")
      case True
      moreover have "2 * r0 + 1 + 1 = 2 * r0 + 2" by simp
      ultimately show ?thesis using b r0 unfolding s by (simp only: if_True) simp
    next
      case False
      then show ?thesis using a r0 by (simp add: s)
    qed
  qed
qed

lemma floor_of_sqrt:
  assumes "0 \<le> y"
  shows "\<lfloor>sqrt y\<rfloor> = floor_sqrt \<lfloor>y\<rfloor>"
proof -
  define m where "m = \<lfloor>y\<rfloor>"
  define k where "k = floor_sqrt m"
  have m0: "0 \<le> m" using assms by (simp add: m_def)
  have m: "real_of_int m \<le> y" "y < real_of_int (m + 1)" by (simp_all add: m_def)
  from floor_sqrt_bounds[OF m0]
  have k0: "0 \<le> k" and lo: "k * k \<le> m" and hi: "m < (k + 1) * (k + 1)"
    by (simp_all add: k_def)
  have "real_of_int (k * k) \<le> real_of_int m" using lo by (simp only: of_int_le_iff)
  then have "(real_of_int k)\<^sup>2 \<le> y" using m(1) by (simp add: power2_eq_square)
  then have 1: "real_of_int k \<le> sqrt y" by (rule real_le_rsqrt)
  have "m + 1 \<le> (k + 1) * (k + 1)" using hi by simp
  then have "real_of_int (m + 1) \<le> real_of_int ((k + 1) * (k + 1))" by (simp only: of_int_le_iff)
  moreover have "real_of_int ((k + 1) * (k + 1)) = (real_of_int k + 1)\<^sup>2"
    by (simp add: power2_eq_square algebra_simps)
  ultimately have "y < (real_of_int k + 1)\<^sup>2" using m(2) by linarith
  then have 2: "sqrt y < real_of_int k + 1" using k0 by (intro real_less_lsqrt) simp_all
  have "\<lfloor>sqrt y\<rfloor> = k" using 1 2 by (intro floor_unique) simp_all
  then show ?thesis by (simp add: k_def m_def)
qed

lemma floor_log2_sqrt:
  assumes "0 < x"
  shows "floor_log2 (sqrt x) = floor_log2 x div 2"
proof -
  define e where "e = floor_log2 x"
  define h where "h = e div 2"
  have xlo: "2 powi e \<le> x" and xhi: "x < 2 powi (e + 1)"
    unfolding e_def by (rule floor_log2_bounds[OF assms])+
  have h: "2 * h \<le> e" "e + 1 \<le> 2 * h + 2" by (simp_all add: h_def)
  have "(2::real) powi (2 * h) \<le> 2 powi e" using h(1) by (intro power_int_increasing) simp_all
  then have "(2 powi h)\<^sup>2 \<le> x" using xlo by (simp add: power2_eq_square two_powi_double)
  then have 1: "2 powi h \<le> sqrt x" by (rule real_le_rsqrt)
  have "(2::real) powi (e + 1) \<le> 2 powi (2 * h + 2)" using h(2)
    by (intro power_int_increasing) simp_all
  moreover have "(2::real) powi (2 * h + 2) = (2 powi (h + 1))\<^sup>2"
    using two_powi_double[of "h + 1"] by (simp add: power2_eq_square)
  ultimately have "x < (2 powi (h + 1))\<^sup>2" using xhi by simp
  then have 2: "sqrt x < 2 powi (h + 1)" using assms by (intro real_less_lsqrt) simp_all
  show ?thesis using floor_log2_unique[OF 1 2] by (simp add: h_def e_def)
qed

lemma round_half_even_sqrt:
  assumes "0 \<le> y"
  shows "round_half_even (sqrt y) =
     (let n = floor_sqrt \<lfloor>y\<rfloor>; m = (of_int n + 1 / 2) * (of_int n + 1 / 2)
      in if y < m then n else if m < y then n + 1 else if even n then n else n + 1)"
proof -
  define n where "n = floor_sqrt \<lfloor>y\<rfloor>"
  define c :: real where "c = of_int n + 1 / 2"
  have fl: "\<lfloor>sqrt y\<rfloor> = n" using floor_of_sqrt[OF assms] by (simp add: n_def)
  have "0 \<le> \<lfloor>y\<rfloor>" using assms by simp
  then have "0 \<le> n" unfolding n_def using floor_sqrt_bounds by blast
  then have c: "0 \<le> c" by (simp add: c_def)
  have sc: "sqrt (c * c) = c" using c by simp
  have lt: "sqrt y < c \<longleftrightarrow> y < c * c"
    using real_sqrt_less_iff[of y "c * c"] by (simp only: sc)
  have gt: "c < sqrt y \<longleftrightarrow> c * c < y"
    using real_sqrt_less_iff[of "c * c" y] by (simp only: sc)
  have 1: "sqrt y - of_int n < 1 / 2 \<longleftrightarrow> y < c * c" using lt by (simp add: c_def) linarith
  have 2: "1 / 2 < sqrt y - of_int n \<longleftrightarrow> c * c < y" using gt by (simp add: c_def) linarith
  show ?thesis
    unfolding round_half_even_def Let_def fl n_def[symmetric] c_def[symmetric] 1 2 by simp
qed

lemma round64_sqrt:
  assumes "0 < x"
  shows "round64 (sqrt x) = sqrt64 x"
proof -
  define e where "e = max (- 1022) (floor_log2 x div 2)"
  define u :: real where "u = 2 powi (e - 52)"
  have u: "0 < u" by (simp add: u_def)
  have s: "0 < sqrt x" using assms by simp
  have ex: "exponent64 (sqrt x) = e" by (simp add: exponent64_def floor_log2_sqrt[OF assms] e_def)
  have "sqrt (x / (u * u)) = sqrt x / u" using u by (simp add: real_sqrt_divide)
  then have q: "sqrt x / u = sqrt (x / (u * u))" by simp
  have y: "0 \<le> x / (u * u)" using assms u by simp
  show ?thesis
    using s
    by (simp add: round64_def sqrt64_def Let_def ex e_def[symmetric] u_def[symmetric] q
        round_half_even_sqrt[OF y])
qed

lemma num_sqrt_code [code]:
  "num_sqrt (Double x) = (if x < 0 then Double_NaN else if x = 0 then Double 0 else sqrt64 x)"
  "num_sqrt Double_PosInf = Double_PosInf"
  "num_sqrt Double_NegInf = Double_NaN"
  "num_sqrt Double_NaN = Double_NaN"
proof -
  consider "x < 0" | "x = 0" | "0 < x" by linarith
  then show "num_sqrt (Double x) =
      (if x < 0 then Double_NaN else if x = 0 then Double 0 else sqrt64 x)"
  proof cases
    case 3
    then show ?thesis by (simp add: round64_sqrt)
  qed (simp_all add: round64_0)
qed simp_all

section \<open>Verification: level-of-detail distance\<close>

lemma plane_distances_wf:
  fixes tile frameState camera cameraCartographic
  defines "d \<equiv> plane_distances tile frameState camera cameraCartographic"
  shows "wf_double (distanceToWestPlane d)" "wf_double (distanceToEastPlane d)"
    "wf_double (distanceToSouthPlane d)" "wf_double (distanceToNorthPlane d)"
    "wf_double (distanceFromTop d)"
  by (simp_all add: d_def plane_distances_def Let_def Cartesian3_dot_def wf_num_add wf_num_sub)

lemma plane_distances_3D:
  assumes "mode frameState = SCENE3D"
  shows "plane_distances tile frameState camera cameraCartographic
           = box_distances_3D (data tile) camera cameraCartographic"
  using assms
  by (simp add: plane_distances_def box_distances_3D_def half_space_distance_def Let_def
      Cartesian3_subtract_def Cartesian3_dot_def)

lemma plane_distances_projected:
  assumes "mode frameState \<noteq> SCENE3D"
  shows "plane_distances tile frameState camera cameraCartographic
           = box_distances_projected (project frameState) (tile_rectangle tile) camera"
  using assms
  by (simp add: plane_distances_def box_distances_projected_def half_space_distance_def Let_def
      Cartesian3_subtract_def Cartesian3_dot_def swizzle2D_def Rectangle_getSouthwest_def
      Rectangle_getNortheast_def negativeUnitY_def negativeUnitZ_def UNIT_Y_def UNIT_Z_def
      Cartesian3_negate_def)

lemma square_after_zero: "num_add (Double 0) (num_mul a a) = num_mul a a"
  by (rule num_add_zero_left) (rule wf_num_mul)

lemma zero_square: "num_mul (Double 0) (Double 0) = Double 0"
  by (simp add: round64_0)

lemma sum_before_zero: "num_add (num_add a b) (Double 0) = num_add a b"
  by (rule num_add_zero_right) (rule wf_num_add)

lemma square_before_zero: "num_add (num_mul a a) (Double 0) = num_mul a a"
  by (rule num_add_zero_right) (rule wf_num_mul)

lemma axis_excess_cases:
  assumes "\<not> (num_gt a (Double 0) \<and> num_gt b (Double 0))"
  shows "axis_excess a b =
     (if num_gt a (Double 0) then a else if num_gt b (Double 0) then b else Double 0)"
  using assms by (auto simp: axis_excess_def positive_part_def num_max_def num_gt_zero_asym)

lemma accumulate_distance_norm64:
  assumes "\<not> (num_gt (distanceToWestPlane d) (Double 0) \<and> num_gt (distanceToEastPlane d) (Double 0))"
    and "\<not> (num_gt (distanceToSouthPlane d) (Double 0) \<and> num_gt (distanceToNorthPlane d) (Double 0))"
  shows "accumulate_distance d =
     norm64 (axis_excess (distanceToWestPlane d) (distanceToEastPlane d))
            (axis_excess (distanceToSouthPlane d) (distanceToNorthPlane d))
            (positive_part (distanceFromTop d))"
  by (simp add: accumulate_distance_def norm64_def axis_excess_cases[OF assms(1)]
      axis_excess_cases[OF assms(2)] positive_part_def Let_def
      square_after_zero zero_square sum_before_zero square_before_zero round64_0)

lemma accumulate_distance_inside:
  assumes "exceeded d = []"
  shows "accumulate_distance d = Double 0"
  using assms
  by (simp add: exceeded_def accumulate_distance_def Let_def round64_0 split: if_splits)

lemma accumulate_distance_single:
  assumes "exceeded d = [v]"
  shows "accumulate_distance d = num_sqrt (num_mul v v)"
  using assms
  by (simp add: exceeded_def accumulate_distance_def Let_def square_after_zero split: if_splits)

lemma filter_singleton:
  assumes "filter P xs = [v]"
  shows "P v" and "v \<in> set xs"
proof -
  have "v \<in> set (filter P xs)" using assms by simp
  then show "P v" and "v \<in> set xs" by simp_all
qed

lemma exceeded_positive:
  assumes "exceeded d = [v]"
  shows "num_gt v (Double 0)"
  using assms unfolding exceeded_def by (rule filter_singleton(1))

lemma exceeded_wf:
  assumes "exceeded (plane_distances tile frameState camera cameraCartographic) = [v]"
  shows "wf_double v"
proof -
  let ?d = "plane_distances tile frameState camera cameraCartographic"
  have "v \<in> set [distanceToWestPlane ?d, distanceToEastPlane ?d, distanceToSouthPlane ?d,
      distanceToNorthPlane ?d, distanceFromTop ?d]"
    using assms unfolding exceeded_def by (rule filter_singleton(2))
  then have "v = distanceToWestPlane ?d \<or> v = distanceToEastPlane ?d
      \<or> v = distanceToSouthPlane ?d \<or> v = distanceToNorthPlane ?d \<or> v = distanceFromTop ?d"
    by simp
  then show ?thesis using plane_distances_wf[of tile frameState camera cameraCartographic]
    by blast
qed

subsection \<open>The planes of the projected modes\<close>

text \<open>
  In the projected modes, for a finite camera whose differences from the projected
  corners are finite, the four plane distances are differences of coordinates: the west
  edge minus the camera's \<open>y\<close>, the south edge minus the camera's \<open>z\<close>, the camera's \<open>y\<close>
  minus the east edge and the camera's \<open>z\<close> minus the north edge. The height is the
  camera's \<open>x\<close>.
\<close>

lemma half_space_distance_axis:
  assumes "is_double px"
    and "num_sub (Double py) (Double oy) = Double a"
    and "num_sub (Double pz) (Double oz) = Double b"
  shows "half_space_distance (Cartesian3 (Double px) (Double py) (Double pz))
           (Cartesian3 (Double 0) (Double oy) (Double oz)) (Cartesian3 (Double 0) (Double 1) (Double 0))
         = num_sub (Double py) (Double oy)"
    and "half_space_distance (Cartesian3 (Double px) (Double py) (Double pz))
           (Cartesian3 (Double 0) (Double oy) (Double oz)) (Cartesian3 (Double 0) (Double (- 1)) (Double 0))
         = num_sub (Double oy) (Double py)"
    and "half_space_distance (Cartesian3 (Double px) (Double py) (Double pz))
           (Cartesian3 (Double 0) (Double oy) (Double oz)) (Cartesian3 (Double 0) (Double 0) (Double 1))
         = num_sub (Double pz) (Double oz)"
    and "half_space_distance (Cartesian3 (Double px) (Double py) (Double pz))
           (Cartesian3 (Double 0) (Double oy) (Double oz)) (Cartesian3 (Double 0) (Double 0) (Double (- 1)))
         = num_sub (Double oz) (Double pz)"
proof -
  have x: "num_sub (Double px) (Double 0) = Double px"
    using assms(1) by (simp add: num_sub_def round64_exact)
  have a: "is_double a" using wf_num_sub[of "Double py" "Double oy"] by (simp add: assms(2))
  have b: "is_double b" using wf_num_sub[of "Double pz" "Double oz"] by (simp add: assms(3))
  have ma: "is_double (- a)" and mb: "is_double (- b)" using a b by (simp_all add: is_double_minus)
  note sw = num_sub_swap[OF assms(2)] num_sub_swap[OF assms(3)]
  show "half_space_distance (Cartesian3 (Double px) (Double py) (Double pz))
           (Cartesian3 (Double 0) (Double oy) (Double oz)) (Cartesian3 (Double 0) (Double 1) (Double 0))
         = num_sub (Double py) (Double oy)"
    by (simp add: half_space_distance_def x assms(2,3) round64_0 round64_exact a)
  show "half_space_distance (Cartesian3 (Double px) (Double py) (Double pz))
           (Cartesian3 (Double 0) (Double oy) (Double oz)) (Cartesian3 (Double 0) (Double (- 1)) (Double 0))
         = num_sub (Double oy) (Double py)"
    by (simp add: half_space_distance_def x assms(2,3) round64_0 round64_exact ma sw)
  show "half_space_distance (Cartesian3 (Double px) (Double py) (Double pz))
           (Cartesian3 (Double 0) (Double oy) (Double oz)) (Cartesian3 (Double 0) (Double 0) (Double 1))
         = num_sub (Double pz) (Double oz)"
    by (simp add: half_space_distance_def x assms(2,3) round64_0 round64_exact b)
  show "half_space_distance (Cartesian3 (Double px) (Double py) (Double pz))
           (Cartesian3 (Double 0) (Double oy) (Double oz)) (Cartesian3 (Double 0) (Double 0) (Double (- 1)))
         = num_sub (Double oz) (Double pz)"
    by (simp add: half_space_distance_def x assms(2,3) round64_0 round64_exact mb sw)
qed

lemma box_distances_projected_finite:
  assumes "is_double cx"
    and "proj (Cartographic (west r) (south r) (Double 0)) = Cartesian3 (Double wx) (Double sy) swz"
    and "proj (Cartographic (east r) (north r) (Double 0)) = Cartesian3 (Double ex) (Double ny) nez"
    and "num_sub (Double cy) (Double wx) = Double a1" "num_sub (Double cz) (Double sy) = Double b1"
    and "num_sub (Double cy) (Double ex) = Double a2" "num_sub (Double cz) (Double ny) = Double b2"
  shows "box_distances_projected proj r (Cartesian3 (Double cx) (Double cy) (Double cz))
         = \<lparr> distanceToWestPlane = num_sub (Double wx) (Double cy),
             distanceToSouthPlane = num_sub (Double sy) (Double cz),
             distanceToEastPlane = num_sub (Double cy) (Double ex),
             distanceToNorthPlane = num_sub (Double cz) (Double ny),
             distanceFromTop = Double cx \<rparr>"
proof -
  have top: "num_sub (Double cx) (Double 0) = Double cx"
    using assms(1) by (simp add: num_sub_def round64_exact)
  note sw = half_space_distance_axis[OF assms(1) assms(4) assms(5)]
  note ne = half_space_distance_axis[OF assms(1) assms(6) assms(7)]
  show ?thesis
    by (simp only: box_distances_projected_def Let_def assms(2,3) cartesian3.sel
        sw(2) sw(4) ne(1) ne(3) top)
qed

subsection \<open>Numbers of the examples\<close>

lemma round64_half_integer:
  assumes "\<bar>n\<bar> < 2 ^ 53"
  shows "round64 (of_int n / 2) = Double (of_int n / 2)"
proof -
  have "is_double (of_int n * 2 powi (- 1))" using assms by (intro is_double_dyadic) simp_all
  then have "is_double (of_int n / 2)" by (simp add: power_int_minus field_simps)
  then show ?thesis by (rule round64_exact)
qed

lemmas round64_values =
  round64_0
  round64_half_integer[of 1, simplified] round64_half_integer[of "- 1", simplified]
  round64_half_integer[of 2, simplified] round64_half_integer[of "- 2", simplified]
  round64_half_integer[of 4, simplified] round64_half_integer[of "- 4", simplified]
  round64_half_integer[of 6, simplified] round64_half_integer[of "- 6", simplified]
  round64_half_integer[of 8, simplified] round64_half_integer[of "- 8", simplified]
  round64_half_integer[of 10, simplified] round64_half_integer[of "- 10", simplified]
  round64_half_integer[of 18, simplified] round64_half_integer[of 32, simplified]
  round64_half_integer[of 50, simplified]

lemma sqrt_values: "sqrt 9 = 3" "sqrt 25 = 5"
  by (rule real_sqrt_unique; simp)+

lemma tiny_facts: "0 < tiny" "is_double tiny" "tiny \<le> 2 powi (- 538)" "round64 tiny = Double tiny"
proof -
  show "0 < tiny" by (simp add: tiny_def)
  have "is_double (of_int 1 * 2 powi (- 600))" by (intro is_double_dyadic) simp_all
  then show d: "is_double tiny" by (simp add: tiny_def)
  show "tiny \<le> 2 powi (- 538)" unfolding tiny_def by (intro power_int_increasing) simp_all
  show "round64 tiny = Double tiny" using d by (rule round64_exact)
qed

lemma huge_facts: "0 < huge" "is_double huge" "2 ^ 512 \<le> huge" "round64 huge = Double huge"
proof -
  show "0 < huge" by (simp add: huge_def)
  have "is_double (of_int 1 * 2 powi 600)" by (intro is_double_dyadic) simp_all
  then show d: "is_double huge" by (simp add: huge_def)
  have "(2::real) powi 512 \<le> 2 powi 600" by (intro power_int_increasing) simp_all
  then show "2 ^ 512 \<le> huge" by (simp add: huge_def)
  show "round64 huge = Double huge" using d by (rule round64_exact)
qed

lemma example_distances_3D:
  assumes "round64 b = Double b" "round64 (- b) = Double (- b)" "round64 (b - 1) = Double (b - 1)"
    "round64 c = Double c" "round64 (- c) = Double (- c)" "round64 (c - 1) = Double (c - 1)"
  shows "plane_distances example_tile (example_frame_state SCENE3D)
           (Cartesian3 (Double 0) (Double b) (Double c))
           (Cartographic (Double 0) (Double 0) height)
         = \<lparr> distanceToWestPlane = Double (- b), distanceToSouthPlane = Double (- c),
             distanceToEastPlane = Double (b - 1), distanceToNorthPlane = Double (c - 1),
             distanceFromTop = num_sub height (Double 1) \<rparr>"
  using assms
  by (simp add: plane_distances_def example_tile_def example_surface_tile_def
      example_frame_state_def Cartesian3_subtract_def Cartesian3_dot_def Let_def
      num_sub_def[of "Double x" for x] round64_values)

lemma example_distances_projected:
  assumes "round64 h = Double h"
  shows "plane_distances example_tile (example_frame_state SCENE2D)
           (Cartesian3 (Double h) (Double (1 / 2)) (Double (1 / 2)))
           (Cartographic (Double 0) (Double 0) (Double 0))
         = \<lparr> distanceToWestPlane = Double (- 1 / 2), distanceToSouthPlane = Double (- 1 / 2),
             distanceToEastPlane = Double (- 1 / 2), distanceToNorthPlane = Double (- 1 / 2),
             distanceFromTop = Double h \<rparr>"
  using assms
  by (simp add: plane_distances_def example_tile_def example_surface_tile_def
      example_frame_state_def Cartesian3_subtract_def Cartesian3_dot_def Let_def num_sub_def
      swizzle2D_def Rectangle_getSouthwest_def Rectangle_getNortheast_def
      negativeUnitY_def negativeUnitZ_def UNIT_Y_def UNIT_Z_def Cartesian3_negate_def
      round64_values)

lemma wedge_distances:
  "plane_distances wedge_tile (example_frame_state SCENE3D)
     (Cartesian3 (Double (- 2)) (Double (- 1)) (Double (1 / 2)))
     (Cartographic (Double 0) (Double 0) (Double 0))
   = \<lparr> distanceToWestPlane = Double 1, distanceToSouthPlane = Double (- 1 / 2),
       distanceToEastPlane = Double 2, distanceToNorthPlane = Double (- 1 / 2),
       distanceFromTop = Double (- 1) \<rparr>"
  by (simp add: plane_distances_def wedge_tile_def wedge_surface_tile_def example_tile_def
      example_frame_state_def Cartesian3_subtract_def Cartesian3_dot_def Let_def num_sub_def
      round64_values)

subsection \<open>The distance\<close>

text \<open>
  C4, as the source computes it. The five signed distances are the half-space distances
  of the camera from the tile's planes: in 3D from the stored corners and normals with
  the geodetic height against the maximum height, in the projected modes from the
  axis-aligned planes through the projected corners with the camera's \<open>x\<close> as height.
  Unless the camera is beyond both planes of an axis, \<^verbatim>\<open>getDistanceToTile\<close> is the
  binary64 evaluation of the Euclidean norm of the three axis excesses clamped at zero.
  When no distance is positive the result is 0. When exactly one distance \<open>dx\<close> is
  positive the result is \<open>dx\<close> if \<open>2\<^sup>-\<^sup>5\<^sup>1\<^sup>1 \<le> dx < 2\<^sup>5\<^sup>1\<^sup>2\<close>, it is 0 if \<open>dx \<le> 2\<^sup>-\<^sup>5\<^sup>3\<^sup>8\<close> (the
  square underflows), and it is infinite if \<open>dx \<ge> 2\<^sup>5\<^sup>1\<^sup>2\<close> or \<open>dx\<close> is infinite (the square
  overflows).
\<close>

theorem getDistanceToTile_binary64_norm:
  "(let d = plane_distances tile frameState camera cameraCartographic;
        r = getDistanceToTile tile frameState camera cameraCartographic
    in (mode frameState = SCENE3D \<longrightarrow> d = box_distances_3D (data tile) camera cameraCartographic)
     \<and> (mode frameState \<noteq> SCENE3D \<longrightarrow>
          d = box_distances_projected (project frameState) (tile_rectangle tile) camera)
     \<and> (\<not> (num_gt (distanceToWestPlane d) (Double 0) \<and> num_gt (distanceToEastPlane d) (Double 0))
          \<and> \<not> (num_gt (distanceToSouthPlane d) (Double 0)
                 \<and> num_gt (distanceToNorthPlane d) (Double 0)) \<longrightarrow>
          r = norm64 (axis_excess (distanceToWestPlane d) (distanceToEastPlane d))
                     (axis_excess (distanceToSouthPlane d) (distanceToNorthPlane d))
                     (positive_part (distanceFromTop d)))
     \<and> (exceeded d = [] \<longrightarrow> r = Double 0)
     \<and> (exceeded d = [Double dx] \<and> 2 powi (- 511) \<le> dx \<and> dx < 2 ^ 512 \<longrightarrow> r = Double dx)
     \<and> (exceeded d = [Double dx] \<and> dx \<le> 2 powi (- 538) \<longrightarrow> r = Double 0)
     \<and> (exceeded d = [Double dx] \<and> 2 ^ 512 \<le> dx \<longrightarrow> r = Double_PosInf)
     \<and> (exceeded d = [Double_PosInf] \<longrightarrow> r = Double_PosInf))"
proof -
  let ?d = "plane_distances tile frameState camera cameraCartographic"
  have r: "getDistanceToTile tile frameState camera cameraCartographic = accumulate_distance ?d"
    by (simp add: getDistanceToTile_def)
  have normal: "accumulate_distance ?d = Double dx"
    if "exceeded ?d = [Double dx]" "2 powi (- 511) \<le> dx" "dx < 2 ^ 512"
  proof -
    have "is_double dx" using exceeded_wf[OF that(1)] by simp
    then have "num_sqrt (num_mul (Double dx) (Double dx)) = Double dx"
      using that(2,3) by (rule sqrt_of_square)
    then show ?thesis by (simp only: accumulate_distance_single[OF that(1)])
  qed
  have under: "accumulate_distance ?d = Double 0"
    if "exceeded ?d = [Double dx]" "dx \<le> 2 powi (- 538)"
  proof -
    have "0 < dx" using exceeded_positive[OF that(1)] by simp
    then have "num_mul (Double dx) (Double dx) = Double 0" using that(2) by (rule square_underflows)
    then show ?thesis by (simp only: accumulate_distance_single[OF that(1)] num_sqrt_0)
  qed
  have over: "accumulate_distance ?d = Double_PosInf"
    if "exceeded ?d = [Double dx]" "2 ^ 512 \<le> dx"
  proof -
    have "num_mul (Double dx) (Double dx) = Double_PosInf" using that(2) by (rule square_overflows)
    then show ?thesis by (simp only: accumulate_distance_single[OF that(1)] num_sqrt.simps)
  qed
  have inf: "accumulate_distance ?d = Double_PosInf" if "exceeded ?d = [Double_PosInf]"
    by (simp only: accumulate_distance_single[OF that] num_mul.simps num_sqrt.simps)
  show ?thesis
    unfolding Let_def r
    by (intro conjI impI)
      (simp_all add: plane_distances_3D plane_distances_projected accumulate_distance_norm64
        accumulate_distance_inside normal under over inf)
qed

text \<open>
  The claim as stated fails in both of its parts. A camera above the map plane by
  \<open>2\<^sup>-\<^sup>6\<^sup>0\<^sup>0\<close> in 2D, inside the tile on the other axes, exceeds exactly one plane by that
  amount, and the result is 0, not \<open>2\<^sup>-\<^sup>6\<^sup>0\<^sup>0\<close>: the square underflows. A camera beyond both
  meridian planes of the wedge, by 1 to the west and by 2 to the east, gets the distance
  1, where the norm of the order-independent axis excesses is 2.
\<close>

theorem getDistanceToTile_underflow_and_plane_order:
  "exceeded (plane_distances example_tile (example_frame_state SCENE2D)
       (Cartesian3 (Double tiny) (Double (1 / 2)) (Double (1 / 2)))
       (Cartographic (Double 0) (Double 0) (Double 0))) = [Double tiny]
   \<and> getDistanceToTile example_tile (example_frame_state SCENE2D)
       (Cartesian3 (Double tiny) (Double (1 / 2)) (Double (1 / 2)))
       (Cartographic (Double 0) (Double 0) (Double 0)) = Double 0
   \<and> Double 0 \<noteq> Double \<bar>tiny\<bar>
   \<and> plane_distances wedge_tile (example_frame_state SCENE3D)
       (Cartesian3 (Double (- 2)) (Double (- 1)) (Double (1 / 2)))
       (Cartographic (Double 0) (Double 0) (Double 0))
      = \<lparr> distanceToWestPlane = Double 1, distanceToSouthPlane = Double (- 1 / 2),
          distanceToEastPlane = Double 2, distanceToNorthPlane = Double (- 1 / 2),
          distanceFromTop = Double (- 1) \<rparr>
   \<and> getDistanceToTile wedge_tile (example_frame_state SCENE3D)
       (Cartesian3 (Double (- 2)) (Double (- 1)) (Double (1 / 2)))
       (Cartographic (Double 0) (Double 0) (Double 0)) = Double 1
   \<and> norm64 (axis_excess (Double 1) (Double 2)) (axis_excess (Double (- 1 / 2)) (Double (- 1 / 2)))
        (positive_part (Double (- 1))) = Double 2
   \<and> Double 1 \<noteq> Double 2"
proof -
  note pd = example_distances_projected[OF tiny_facts(4)]
  have "num_mul (Double tiny) (Double tiny) = Double 0"
    using tiny_facts(1,3) by (rule square_underflows)
  then have sq: "round64 (tiny * tiny) = Double 0" by simp
  have 1: "exceeded (plane_distances example_tile (example_frame_state SCENE2D)
       (Cartesian3 (Double tiny) (Double (1 / 2)) (Double (1 / 2)))
       (Cartographic (Double 0) (Double 0) (Double 0))) = [Double tiny]"
    using tiny_facts(1) by (simp add: pd exceeded_def)
  have 2: "getDistanceToTile example_tile (example_frame_state SCENE2D)
       (Cartesian3 (Double tiny) (Double (1 / 2)) (Double (1 / 2)))
       (Cartographic (Double 0) (Double 0) (Double 0)) = Double 0"
    using tiny_facts(1)
    by (simp add: getDistanceToTile_def pd accumulate_distance_def Let_def sq round64_values)
  have 3: "Double 0 \<noteq> Double \<bar>tiny\<bar>" using tiny_facts(1) by simp
  have 5: "getDistanceToTile wedge_tile (example_frame_state SCENE3D)
       (Cartesian3 (Double (- 2)) (Double (- 1)) (Double (1 / 2)))
       (Cartographic (Double 0) (Double 0) (Double 0)) = Double 1"
    by (simp add: getDistanceToTile_def wedge_distances accumulate_distance_def Let_def
        round64_values)
  have 6: "norm64 (axis_excess (Double 1) (Double 2))
        (axis_excess (Double (- 1 / 2)) (Double (- 1 / 2))) (positive_part (Double (- 1))) = Double 2"
    by (simp add: norm64_def axis_excess_def positive_part_def num_max_def round64_values)
  have 7: "Double 1 \<noteq> Double 2" by simp
  from 1 2 3 wedge_distances 5 6 7 show ?thesis by (intro conjI)
qed

theorem getDistanceToTile_binary64_norm_witness:
  "plane_distances example_tile (example_frame_state SCENE3D)
       (Cartesian3 (Double 0) (Double (1 / 2)) (Double (1 / 2)))
       (Cartographic (Double 0) (Double 0) (Double (1 / 2)))
     = box_distances_3D (data example_tile)
         (Cartesian3 (Double 0) (Double (1 / 2)) (Double (1 / 2)))
         (Cartographic (Double 0) (Double 0) (Double (1 / 2)))
   \<and> plane_distances example_tile (example_frame_state SCENE2D)
       (Cartesian3 (Double tiny) (Double (1 / 2)) (Double (1 / 2)))
       (Cartographic (Double 0) (Double 0) (Double 0))
     = box_distances_projected (project (example_frame_state SCENE2D))
         (tile_rectangle example_tile)
         (Cartesian3 (Double tiny) (Double (1 / 2)) (Double (1 / 2)))
   \<and> getDistanceToTile example_tile (example_frame_state SCENE3D)
       (Cartesian3 (Double 0) (Double (1 / 2)) (Double (1 / 2)))
       (Cartographic (Double 0) (Double 0) (Double (1 / 2))) = Double 0
   \<and> getDistanceToTile example_tile (example_frame_state SCENE3D)
       (Cartesian3 (Double 0) (Double (- 3)) (Double (1 / 2)))
       (Cartographic (Double 0) (Double 0) (Double (1 / 2))) = Double 3
   \<and> getDistanceToTile example_tile (example_frame_state SCENE2D)
       (Cartesian3 (Double tiny) (Double (1 / 2)) (Double (1 / 2)))
       (Cartographic (Double 0) (Double 0) (Double 0)) = Double 0
   \<and> getDistanceToTile example_tile (example_frame_state SCENE2D)
       (Cartesian3 (Double huge) (Double (1 / 2)) (Double (1 / 2)))
       (Cartographic (Double 0) (Double 0) (Double 0)) = Double_PosInf
   \<and> getDistanceToTile example_tile (example_frame_state SCENE3D)
       (Cartesian3 (Double 0) (Double (1 / 2)) (Double (1 / 2)))
       (Cartographic (Double 0) (Double 0) Double_PosInf) = Double_PosInf
   \<and> getDistanceToTile example_tile (example_frame_state SCENE3D)
       (Cartesian3 (Double 0) (Double (- 3)) (Double (- 4)))
       (Cartographic (Double 0) (Double 0) (Double (1 / 2))) = Double 5"
proof -
  let ?fs3 = "example_frame_state SCENE3D" and ?fs2 = "example_frame_state SCENE2D"
  let ?inside = "Cartesian3 (Double 0) (Double (1 / 2)) (Double (1 / 2))"
  let ?west3 = "Cartesian3 (Double 0) (Double (- 3)) (Double (1 / 2))"
  let ?corner = "Cartesian3 (Double 0) (Double (- 3)) (Double (- 4))"
  let ?low = "Cartographic (Double 0) (Double 0) (Double (1 / 2))"
  let ?far = "Cartographic (Double 0) (Double 0) Double_PosInf"
  let ?c0 = "Cartographic (Double 0) (Double 0) (Double 0)"
  have m3: "mode ?fs3 = SCENE3D" and m2: "mode ?fs2 \<noteq> SCENE3D"
    by (simp_all add: example_frame_state_def)
  have d_inside: "plane_distances example_tile ?fs3 ?inside
         (Cartographic (Double 0) (Double 0) height)
       = \<lparr> distanceToWestPlane = Double (- (1 / 2)), distanceToSouthPlane = Double (- (1 / 2)),
           distanceToEastPlane = Double (1 / 2 - 1), distanceToNorthPlane = Double (1 / 2 - 1),
           distanceFromTop = num_sub height (Double 1) \<rparr>" for height
    by (rule example_distances_3D) (simp_all add: round64_values)
  have d_west3: "plane_distances example_tile ?fs3 ?west3 ?low
       = \<lparr> distanceToWestPlane = Double (- (- 3)), distanceToSouthPlane = Double (- (1 / 2)),
           distanceToEastPlane = Double (- 3 - 1), distanceToNorthPlane = Double (1 / 2 - 1),
           distanceFromTop = num_sub (Double (1 / 2)) (Double 1) \<rparr>"
    by (rule example_distances_3D) (simp_all add: round64_values)
  have d_corner: "plane_distances example_tile ?fs3 ?corner ?low
       = \<lparr> distanceToWestPlane = Double (- (- 3)), distanceToSouthPlane = Double (- (- 4)),
           distanceToEastPlane = Double (- 3 - 1), distanceToNorthPlane = Double (- 4 - 1),
           distanceFromTop = num_sub (Double (1 / 2)) (Double 1) \<rparr>"
    by (rule example_distances_3D) (simp_all add: round64_values)
  note d_tiny = example_distances_projected[OF tiny_facts(4)]
  note d_huge = example_distances_projected[OF huge_facts(4)]
  have top: "num_sub (Double (1 / 2)) (Double 1) = Double (- (1 / 2))"
    by (simp add: num_sub_def round64_values)
  have 1: "plane_distances example_tile ?fs3 ?inside ?low
             = box_distances_3D (data example_tile) ?inside ?low"
    using getDistanceToTile_binary64_norm[of example_tile ?fs3 ?inside ?low 0, unfolded Let_def,
        THEN conjunct1] m3 by (rule mp)
  have 2: "plane_distances example_tile ?fs2 (Cartesian3 (Double tiny) (Double (1 / 2)) (Double (1 / 2))) ?c0
             = box_distances_projected (project ?fs2) (tile_rectangle example_tile)
                 (Cartesian3 (Double tiny) (Double (1 / 2)) (Double (1 / 2)))"
    using getDistanceToTile_binary64_norm[of example_tile ?fs2
        "Cartesian3 (Double tiny) (Double (1 / 2)) (Double (1 / 2))" ?c0 0, unfolded Let_def,
        THEN conjunct2, THEN conjunct1] m2 by (rule mp)
  have "exceeded (plane_distances example_tile ?fs3 ?inside ?low) = []"
    by (simp add: d_inside top exceeded_def)
  with getDistanceToTile_binary64_norm[of example_tile ?fs3 ?inside ?low 0, unfolded Let_def,
      THEN conjunct2, THEN conjunct2, THEN conjunct2, THEN conjunct1]
  have 3: "getDistanceToTile example_tile ?fs3 ?inside ?low = Double 0" by (rule mp)
  have "exceeded (plane_distances example_tile ?fs3 ?west3 ?low) = [Double 3]
          \<and> 2 powi (- 511) \<le> (3::real) \<and> (3::real) < 2 ^ 512"
  proof (intro conjI)
    show "exceeded (plane_distances example_tile ?fs3 ?west3 ?low) = [Double 3]"
      by (simp add: d_west3 top exceeded_def)
    have "(2::real) powi (- 511) \<le> 2 powi 0" by (intro power_int_increasing) simp_all
    then show "2 powi (- 511) \<le> (3::real)" by simp
    have "(2::real) ^ 2 \<le> 2 ^ 512" by (intro power_increasing) simp_all
    then show "(3::real) < 2 ^ 512" by simp
  qed
  with getDistanceToTile_binary64_norm[of example_tile ?fs3 ?west3 ?low 3, unfolded Let_def,
      THEN conjunct2, THEN conjunct2, THEN conjunct2, THEN conjunct2, THEN conjunct1]
  have 4: "getDistanceToTile example_tile ?fs3 ?west3 ?low = Double 3" by (rule mp)
  have "exceeded (plane_distances example_tile ?fs2
            (Cartesian3 (Double tiny) (Double (1 / 2)) (Double (1 / 2))) ?c0) = [Double tiny]
          \<and> tiny \<le> 2 powi (- 538)"
    using tiny_facts(1,3) by (simp add: d_tiny exceeded_def)
  with getDistanceToTile_binary64_norm[of example_tile ?fs2
      "Cartesian3 (Double tiny) (Double (1 / 2)) (Double (1 / 2))" ?c0 tiny, unfolded Let_def,
      THEN conjunct2, THEN conjunct2, THEN conjunct2, THEN conjunct2, THEN conjunct2,
      THEN conjunct1]
  have 5: "getDistanceToTile example_tile ?fs2
      (Cartesian3 (Double tiny) (Double (1 / 2)) (Double (1 / 2))) ?c0 = Double 0" by (rule mp)
  have "exceeded (plane_distances example_tile ?fs2
            (Cartesian3 (Double huge) (Double (1 / 2)) (Double (1 / 2))) ?c0) = [Double huge]
          \<and> 2 ^ 512 \<le> huge"
    using huge_facts(1,3) by (simp add: d_huge exceeded_def)
  with getDistanceToTile_binary64_norm[of example_tile ?fs2
      "Cartesian3 (Double huge) (Double (1 / 2)) (Double (1 / 2))" ?c0 huge, unfolded Let_def,
      THEN conjunct2, THEN conjunct2, THEN conjunct2, THEN conjunct2, THEN conjunct2,
      THEN conjunct2, THEN conjunct1]
  have 6: "getDistanceToTile example_tile ?fs2
      (Cartesian3 (Double huge) (Double (1 / 2)) (Double (1 / 2))) ?c0 = Double_PosInf"
    by (rule mp)
  have "exceeded (plane_distances example_tile ?fs3 ?inside ?far) = [Double_PosInf]"
    by (simp add: d_inside exceeded_def num_sub_def)
  with getDistanceToTile_binary64_norm[of example_tile ?fs3 ?inside ?far 0, unfolded Let_def,
      THEN conjunct2, THEN conjunct2, THEN conjunct2, THEN conjunct2, THEN conjunct2,
      THEN conjunct2, THEN conjunct2]
  have 7: "getDistanceToTile example_tile ?fs3 ?inside ?far = Double_PosInf" by (rule mp)
  have 8: "getDistanceToTile example_tile ?fs3 ?corner ?low = Double 5"
    using getDistanceToTile_binary64_norm[of example_tile ?fs3 ?corner ?low 0, unfolded Let_def,
        THEN conjunct2, THEN conjunct2, THEN conjunct1]
    by (simp add: d_corner top norm64_def axis_excess_def positive_part_def
        num_max_def round64_values sqrt_values)
  from 1 2 3 4 5 6 7 8 show ?thesis by (intro conjI)
qed


section \<open>Verification: imagery layer removal\<close>

lemma belongs_to_iff:
  "belongs_to layer t \<longleftrightarrow> (\<exists>img. tile_imagery_imagery t = Some img \<and> imageryLayer img = layer)"
  by (cases "tile_imagery_imagery t") (simp_all add: belongs_to_def tile_imagery_layer_def)

lemma scan_run:
  assumes "\<forall>t \<in> set xs. tile_imagery_imagery t \<noteq> None" and "s \<noteq> - 1"
  shows "layer_removed_scan layer xs (length xs) i s n freed =
           Inr (s, n + length (takeWhile (belongs_to layer) (drop i xs)),
                freed @ takeWhile (belongs_to layer) (drop i xs))"
proof (induction "length xs - i" arbitrary: i n freed)
  case 0
  then show ?case by (simp add: layer_removed_scan.simps[of layer xs "length xs" i])
next
  case (Suc d)
  then have i: "i < length xs" by simp
  from Suc.hyps(2) have d: "d = length xs - (i + 1)" by simp
  from i have dr: "drop i xs = xs ! i # drop (i + 1) xs" by (simp add: Cons_nth_drop_Suc)
  from i assms(1) obtain img where img: "tile_imagery_imagery (xs ! i) = Some img"
    by (metis not_None_eq nth_mem)
  show ?case
  proof (cases "imageryLayer img = layer")
    case True
    then have b: "belongs_to layer (xs ! i)" using img by (simp add: belongs_to_iff)
    from True i img assms(2)
    have "layer_removed_scan layer xs (length xs) i s n freed =
          layer_removed_scan layer xs (length xs) (i + 1) s (n + 1) (freed @ [xs ! i])"
      by (simp add: layer_removed_scan.simps[of layer xs "length xs" i] Let_def)
    also have "\<dots> = Inr (s, n + 1 + length (takeWhile (belongs_to layer) (drop (i + 1) xs)),
                (freed @ [xs ! i]) @ takeWhile (belongs_to layer) (drop (i + 1) xs))"
      by (rule Suc.hyps(1)[OF d])
    finally show ?thesis using b by (simp add: dr)
  next
    case False
    then have b: "\<not> belongs_to layer (xs ! i)" using img by (simp add: belongs_to_iff)
    from False i img assms(2)
    have "layer_removed_scan layer xs (length xs) i s n freed = Inr (s, n, freed)"
      by (simp add: layer_removed_scan.simps[of layer xs "length xs" i] Let_def)
    with b show ?thesis by (simp add: dr)
  qed
qed

lemma scan_start:
  assumes "\<forall>t \<in> set xs. tile_imagery_imagery t \<noteq> None"
  shows "layer_removed_scan layer xs (length xs) i (- 1) 0 [] =
           (let run = takeWhile (belongs_to layer)
                        (dropWhile (\<lambda>t. \<not> belongs_to layer t) (drop i xs))
            in Inr (if run = [] then - 1
                    else int (i + length (takeWhile (\<lambda>t. \<not> belongs_to layer t) (drop i xs))),
                    length run, run))"
proof (induction "length xs - i" arbitrary: i)
  case 0
  then show ?case by (simp add: layer_removed_scan.simps[of layer xs "length xs" i])
next
  case (Suc d)
  then have i: "i < length xs" by simp
  from Suc.hyps(2) have d: "d = length xs - (i + 1)" by simp
  from i have dr: "drop i xs = xs ! i # drop (i + 1) xs" by (simp add: Cons_nth_drop_Suc)
  from i assms(1) obtain img where img: "tile_imagery_imagery (xs ! i) = Some img"
    by (metis not_None_eq nth_mem)
  show ?case
  proof (cases "imageryLayer img = layer")
    case True
    then have b: "belongs_to layer (xs ! i)" using img by (simp add: belongs_to_iff)
    from True i img
    have "layer_removed_scan layer xs (length xs) i (- 1) 0 [] =
          layer_removed_scan layer xs (length xs) (i + 1) (int i) (0 + 1) ([] @ [xs ! i])"
      by (simp add: layer_removed_scan.simps[of layer xs "length xs" i] Let_def)
    also have "\<dots> = Inr (int i, 0 + 1 + length (takeWhile (belongs_to layer) (drop (i + 1) xs)),
                ([] @ [xs ! i]) @ takeWhile (belongs_to layer) (drop (i + 1) xs))"
      by (rule scan_run[OF assms]) simp
    finally show ?thesis using b by (simp add: dr Let_def)
  next
    case False
    then have b: "\<not> belongs_to layer (xs ! i)" using img by (simp add: belongs_to_iff)
    from False i img
    have "layer_removed_scan layer xs (length xs) i (- 1) 0 [] =
          layer_removed_scan layer xs (length xs) (i + 1) (- 1) 0 []"
      by (simp add: layer_removed_scan.simps[of layer xs "length xs" i] Let_def)
    with Suc.hyps(1)[OF d] b show ?thesis by (simp add: dr Let_def)
  qed
qed

lemma first_run_split:
  "xs = takeWhile (\<lambda>t. \<not> P t) xs @ takeWhile P (dropWhile (\<lambda>t. \<not> P t) xs)
          @ dropWhile P (dropWhile (\<lambda>t. \<not> P t) xs)"
  by simp

lemma onLayerRemoved_tile_first_run:
  assumes wf: "\<forall>t \<in> set (imagery_list (data tile)). tile_imagery_imagery t \<noteq> None"
  shows "onLayerRemoved_tile layers layer tile =
           Inr ((if isBaseLayer (layers layer) then (\<lambda>t. t\<lparr>isRenderable := False\<rparr>) else (\<lambda>t. t))
                  (tile\<lparr>data := (data tile)\<lparr>imagery_list :=
                     takeWhile (\<lambda>t. \<not> belongs_to layer t) (imagery_list (data tile))
                     @ dropWhile (belongs_to layer)
                         (dropWhile (\<lambda>t. \<not> belongs_to layer t) (imagery_list (data tile)))\<rparr>\<rparr>),
                takeWhile (belongs_to layer)
                  (dropWhile (\<lambda>t. \<not> belongs_to layer t) (imagery_list (data tile))))"
proof -
  let ?xs = "imagery_list (data tile)"
  let ?nb = "\<lambda>t. \<not> belongs_to layer t"
  let ?pre = "takeWhile ?nb ?xs"
  let ?rest = "dropWhile ?nb ?xs"
  let ?run = "takeWhile (belongs_to layer) ?rest"
  let ?post = "dropWhile (belongs_to layer) ?rest"
  have scan: "layer_removed_scan layer ?xs (length ?xs) 0 (- 1) 0 [] =
                Inr (if ?run = [] then - 1 else int (length ?pre), length ?run, ?run)"
    using scan_start[OF wf, of layer 0] by (simp add: Let_def)
  have spl: "splice ?xs (length ?pre) (length ?run) = ?pre @ ?post"
  proof -
    have "take (length ?pre) ?xs = ?pre" by (rule takeWhile_eq_take[symmetric])
    moreover have "drop (length ?pre + length ?run) ?xs = drop (length ?run) ?rest"
      by (simp add: dropWhile_eq_drop[of ?nb ?xs] add.commute)
    moreover have "drop (length ?run) ?rest = ?post"
      by (rule dropWhile_eq_drop[symmetric])
    ultimately show ?thesis by (simp add: splice_def)
  qed
  have unchanged: "?run = [] \<Longrightarrow> ?pre @ ?post = ?xs"
  proof -
    assume e: "?run = []"
    have "?rest = []"
    proof (cases ?rest)
      case Nil then show ?thesis .
    next
      case (Cons y ys)
      then have "belongs_to layer y" using hd_dropWhile[of ?nb ?xs] by fastforce
      with Cons e show ?thesis by simp
    qed
    then show ?thesis by (metis append_Nil2 dropWhile.simps(1) takeWhile_dropWhile_id)
  qed
  show ?thesis
  proof (cases "?run = []")
    case True
    with unchanged have "?pre @ ?post = ?xs" by simp
    with True scan show ?thesis
      by (simp add: onLayerRemoved_tile_def Let_def)
  next
    case False
    with scan spl show ?thesis
      by (simp add: onLayerRemoved_tile_def Let_def)
  qed
qed

lemma sorted_between:
  assumes "sorted (map k (pre @ mid @ y # ys))" "r \<in> set mid" "z \<in> set (y # ys)"
    and "k r = c" "k z = c"
  shows "k y = (c::int)"
proof -
  from assms(1) have "sorted (map k (mid @ y # ys))" by (simp add: sorted_append)
  with assms(2) have "k r \<le> k y" by (auto simp: sorted_append)
  moreover from assms(1) have "sorted (map k (y # ys))" by (simp add: sorted_append)
  with assms(3) have "k y \<le> k z" by auto
  ultimately show ?thesis using assms(4,5) by simp
qed

lemma dropWhile_head: "dropWhile P xs = y # ys \<Longrightarrow> \<not> P y"
  using hd_dropWhile[of P xs] by auto

lemma nothing_after_first_run:
  assumes wf: "\<forall>t \<in> set xs. tile_imagery_imagery t \<noteq> None"
    and sorted: "sorted (map (layer_index_of idx) xs)"
    and inj: "\<forall>t \<in> set xs. \<forall>l. tile_imagery_layer t = Some l \<and> idx l = idx layer \<longrightarrow> l = layer"
  shows "\<forall>t \<in> set (dropWhile (belongs_to layer) (dropWhile (\<lambda>t. \<not> belongs_to layer t) xs)).
           \<not> belongs_to layer t"
proof (rule ballI, rule notI)
  define pre where "pre = takeWhile (\<lambda>t. \<not> belongs_to layer t) xs"
  define rest where "rest = dropWhile (\<lambda>t. \<not> belongs_to layer t) xs"
  define mid where "mid = takeWhile (belongs_to layer) rest"
  define post where "post = dropWhile (belongs_to layer) rest"
  have xs: "xs = pre @ mid @ post"
    by (simp add: pre_def rest_def mid_def post_def)
  fix z assume "z \<in> set (dropWhile (belongs_to layer) (dropWhile (\<lambda>t. \<not> belongs_to layer t) xs))"
  then have z: "z \<in> set post" by (simp add: post_def rest_def)
  assume bz: "belongs_to layer z"
  from z obtain y ys where post: "post = y # ys" by (cases post) auto
  then have ny: "\<not> belongs_to layer y" unfolding post_def by (rule dropWhile_head)
  from post have "rest \<noteq> []" unfolding post_def by auto
  then obtain r rs where rest: "rest = r # rs" by (cases rest) auto
  then have "\<not> \<not> belongs_to layer r" unfolding rest_def by (rule dropWhile_head)
  then have br: "belongs_to layer r" by simp
  with rest have r_mid: "r \<in> set mid" by (simp add: mid_def)
  from br have kr: "layer_index_of idx r = idx layer"
    by (simp add: layer_index_of_def belongs_to_def)
  from bz have kz: "layer_index_of idx z = idx layer"
    by (simp add: layer_index_of_def belongs_to_def)
  from sorted have "sorted (map (layer_index_of idx) (pre @ mid @ y # ys))"
    unfolding xs post .
  from sorted_between[OF this r_mid _ kr kz] z post
  have ky: "layer_index_of idx y = idx layer" by simp
  have y_in: "y \<in> set xs" unfolding xs post by simp
  with wf obtain img where "tile_imagery_imagery y = Some img" by auto
  then have ly: "tile_imagery_layer y = Some (imageryLayer img)"
    by (simp add: tile_imagery_layer_def)
  with ky have "idx (imageryLayer img) = idx layer" by (simp add: layer_index_of_def)
  with inj y_in ly have "imageryLayer img = layer" by blast
  with ly have "belongs_to layer y" by (simp add: belongs_to_def)
  with ny show False by simp
qed

lemma filter_three_parts:
  assumes "\<forall>t \<in> set a. \<not> P t" "\<forall>t \<in> set b. P t" "\<forall>t \<in> set c. \<not> P t"
  shows "filter (\<lambda>t. \<not> P t) (a @ b @ c) = a @ c" and "filter P (a @ b @ c) = b"
  using assms by (simp_all add: filter_id_conv filter_empty_conv)

lemma filter_first_run:
  assumes "\<forall>t \<in> set (dropWhile P (dropWhile (\<lambda>t. \<not> P t) xs)). \<not> P t"
  shows "filter (\<lambda>t. \<not> P t) xs = takeWhile (\<lambda>t. \<not> P t) xs @ dropWhile P (dropWhile (\<lambda>t. \<not> P t) xs)"
    and "filter P xs = takeWhile P (dropWhile (\<lambda>t. \<not> P t) xs)"
proof -
  let ?pre = "takeWhile (\<lambda>t. \<not> P t) xs"
  let ?run = "takeWhile P (dropWhile (\<lambda>t. \<not> P t) xs)"
  let ?post = "dropWhile P (dropWhile (\<lambda>t. \<not> P t) xs)"
  have pre: "\<forall>t \<in> set ?pre. \<not> P t" by (auto dest: set_takeWhileD)
  have run: "\<forall>t \<in> set ?run. P t" by (auto dest: set_takeWhileD)
  have "filter (\<lambda>t. \<not> P t) xs = filter (\<lambda>t. \<not> P t) (?pre @ ?run @ ?post)" by simp
  also have "\<dots> = ?pre @ ?post" by (rule filter_three_parts(1)[OF pre run assms])
  finally show "filter (\<lambda>t. \<not> P t) xs = ?pre @ ?post" .
  have "filter P xs = filter P (?pre @ ?run @ ?post)" by simp
  also have "\<dots> = ?run" by (rule filter_three_parts(2)[OF pre run assms])
  finally show "filter P xs = ?run" .
qed

lemma forEachLoadedTile_map:
  assumes "\<forall>t \<in> set ts. f t = Inr (g t)"
  shows "forEachLoadedTile f ts = Inr (map g ts)"
  using assms by (induction ts) simp_all

text \<open>
  C8. Take a tile whose TileImagery entries all have an imagery and are sorted by
  ascending layer index, where \<open>idx\<close> gives each layer its index and no other layer on
  the tile has the index of the removed layer (layer indices are unique). Then
  \<^verbatim>\<open>_onLayerRemoved\<close> returns normally on the tile; the entries it deletes are exactly the
  entries of the removed layer, which form one contiguous run; all other entries stay, in
  their order; \<^verbatim>\<open>freeResources\<close> is called on each deleted entry and on no other; and
  the tile is made non-renderable when the layer is the base layer and is otherwise left
  as it was.
\<close>

theorem onLayerRemoved_deletes_layer_run:
  assumes wf: "\<forall>t \<in> set (imagery_list (data tile)). tile_imagery_imagery t \<noteq> None"
    and sorted: "sorted (map (layer_index_of idx) (imagery_list (data tile)))"
    and unique: "\<forall>t \<in> set (imagery_list (data tile)).
                   \<forall>l. tile_imagery_layer t = Some l \<and> idx l = idx layer \<longrightarrow> l = layer"
  shows "onLayerRemoved_tile layers layer tile =
           Inr (tile\<lparr> data := (data tile)
                         \<lparr>imagery_list := filter (\<lambda>t. \<not> belongs_to layer t) (imagery_list (data tile))\<rparr>,
                      isRenderable := (isRenderable tile \<and> \<not> isBaseLayer (layers layer)) \<rparr>,
                filter (belongs_to layer) (imagery_list (data tile)))
         \<and> (\<exists>pre post.
               imagery_list (data tile) = pre @ filter (belongs_to layer) (imagery_list (data tile)) @ post
               \<and> filter (\<lambda>t. \<not> belongs_to layer t) (imagery_list (data tile)) = pre @ post)"
proof -
  let ?xs = "imagery_list (data tile)"
  let ?nb = "\<lambda>t. \<not> belongs_to layer t"
  let ?pre = "takeWhile ?nb ?xs"
  let ?mid = "takeWhile (belongs_to layer) (dropWhile ?nb ?xs)"
  let ?post = "dropWhile (belongs_to layer) (dropWhile ?nb ?xs)"
  have after: "\<forall>t \<in> set ?post. \<not> belongs_to layer t"
    by (rule nothing_after_first_run[OF wf sorted unique])
  have keep: "filter ?nb ?xs = ?pre @ ?post" by (rule filter_first_run(1)[OF after])
  have gone: "filter (belongs_to layer) ?xs = ?mid" by (rule filter_first_run(2)[OF after])
  have split: "?xs = ?pre @ ?mid @ ?post" by (rule first_run_split)
  have "onLayerRemoved_tile layers layer tile =
           Inr (tile\<lparr> data := (data tile)\<lparr>imagery_list := ?pre @ ?post\<rparr>,
                      isRenderable := (isRenderable tile \<and> \<not> isBaseLayer (layers layer)) \<rparr>,
                ?mid)"
    unfolding onLayerRemoved_tile_first_run[OF wf] by (cases "isBaseLayer (layers layer)") simp_all
  then have result: "onLayerRemoved_tile layers layer tile =
           Inr (tile\<lparr> data := (data tile)\<lparr>imagery_list := filter ?nb ?xs\<rparr>,
                      isRenderable := (isRenderable tile \<and> \<not> isBaseLayer (layers layer)) \<rparr>,
                filter (belongs_to layer) ?xs)"
    unfolding keep gone .
  have "?xs = ?pre @ filter (belongs_to layer) ?xs @ ?post \<and> filter ?nb ?xs = ?pre @ ?post"
    unfolding gone keep using split by blast
  then have "\<exists>pre post. ?xs = pre @ filter (belongs_to layer) ?xs @ post
                \<and> filter ?nb ?xs = pre @ post"
    by blast
  with result show ?thesis by blast
qed

lemma example_sorted:
  "sort_tile_imagery example_layers (tile_with_imagery 1 example_mixed_imagery) =
     Inr (tile_with_imagery 1 example_sorted_imagery)"
  by (simp add: sort_tile_imagery_def tile_with_imagery_def example_mixed_imagery_def
      example_sorted_imagery_def example_ready_def example_loading_def example_imagery_def
      example_layers_def sortTileImageryByLayerIndex_key_def tile_imagery_imagery_def
      example_tile_def example_surface_tile_def Let_def)

theorem onLayerRemoved_deletes_layer_run_witness:
  "onLayerRemoved_tile example_layers 20 (tile_with_imagery 1 example_sorted_imagery) =
     Inr (tile_with_imagery 1 [example_ready 10 3, example_ready 10 5, example_ready 30 2],
          [example_ready 20 1, example_loading 20 4])
   \<and> onLayerRemoved_tile example_layers 10 (tile_with_imagery 1 example_sorted_imagery) =
     Inr ((tile_with_imagery 1 [example_ready 20 1, example_loading 20 4, example_ready 30 2])
             \<lparr>isRenderable := False\<rparr>,
          [example_ready 10 3, example_ready 10 5])"
proof -
  let ?tile = "tile_with_imagery 1 example_sorted_imagery"
  let ?idx = "\<lambda>l. layerIndex (example_layers l)"
  have xs: "imagery_list (data ?tile) = example_sorted_imagery"
    by (simp add: tile_with_imagery_def)
  have layer_of:
    "\<And>l t. tile_imagery_layer (example_ready l t) = Some l"
    "\<And>l t. tile_imagery_layer (example_loading l t) = Some l"
    by (simp_all add: tile_imagery_layer_def tile_imagery_imagery_def example_ready_def
        example_loading_def example_imagery_def)
  have wf: "\<forall>t \<in> set (imagery_list (data ?tile)). tile_imagery_imagery t \<noteq> None"
    unfolding xs
    by (simp add: example_sorted_imagery_def tile_imagery_imagery_def example_ready_def
        example_loading_def)
  have sorted: "sorted (map (layer_index_of ?idx) (imagery_list (data ?tile)))"
    unfolding xs
    by (simp add: example_sorted_imagery_def layer_index_of_def layer_of example_layers_def)
  have unique: "\<And>layer. layer \<in> {10, 20, 30} \<Longrightarrow>
     \<forall>t \<in> set (imagery_list (data ?tile)).
       \<forall>l. tile_imagery_layer t = Some l \<and> ?idx l = ?idx layer \<longrightarrow> l = layer"
    unfolding xs
    by (auto simp: example_sorted_imagery_def layer_of example_layers_def)
  have belongs:
    "\<And>a l t. belongs_to a (example_ready l t) = (l = a)"
    "\<And>a l t. belongs_to a (example_loading l t) = (l = a)"
    by (auto simp: belongs_to_def layer_of)
  have 1: "onLayerRemoved_tile example_layers 20 ?tile =
     Inr (tile_with_imagery 1 [example_ready 10 3, example_ready 10 5, example_ready 30 2],
          [example_ready 20 1, example_loading 20 4])"
    using onLayerRemoved_deletes_layer_run[OF wf sorted unique, of 20 example_layers, THEN conjunct1]
    unfolding xs
    by (simp add: example_sorted_imagery_def belongs example_layers_def
        tile_with_imagery_def example_tile_def)
  have 2: "onLayerRemoved_tile example_layers 10 ?tile =
     Inr ((tile_with_imagery 1 [example_ready 20 1, example_loading 20 4, example_ready 30 2])
             \<lparr>isRenderable := False\<rparr>,
          [example_ready 10 3, example_ready 10 5])"
    using onLayerRemoved_deletes_layer_run[OF wf sorted unique, of 10 example_layers, THEN conjunct1]
    unfolding xs
    by (simp add: example_sorted_imagery_def belongs example_layers_def
        tile_with_imagery_def example_tile_def)
  from 1 2 show ?thesis by simp
qed

text \<open>
  The sort of \<^verbatim>\<open>beginFrame\<close> establishes the order that the removal relies on, with the
  layers' current \<^verbatim>\<open>_layerIndex\<close> as the index; and the removal on the provider is the
  removal on each loaded tile.
\<close>

lemma sort_tile_imagery_sorted:
  assumes "sort_tile_imagery layers tile = Inr tile'"
  shows "sorted (map (layer_index_of (\<lambda>l. layerIndex (layers l))) (imagery_list (data tile')))"
proof -
  have key: "sortTileImageryByLayerIndex_key layers = layer_index_of (\<lambda>l. layerIndex (layers l))"
    by (rule ext)
       (simp add: sortTileImageryByLayerIndex_key_def layer_index_of_def tile_imagery_layer_def
          split: option.splits)
  from assms have "imagery_list (data tile') =
      sort_key (sortTileImageryByLayerIndex_key layers) (imagery_list (data tile))"
    by (auto simp: sort_tile_imagery_def Let_def split: if_splits)
  then show ?thesis by (simp add: key)
qed

lemma onLayerRemoved_all_tiles:
  assumes "\<forall>tile \<in> set (loadedTiles p).
             \<forall>t \<in> set (imagery_list (data tile)). tile_imagery_imagery t \<noteq> None"
  shows "\<exists>tiles. onLayerRemoved p layer = Inr (p\<lparr>loadedTiles := tiles\<rparr>)
           \<and> length tiles = length (loadedTiles p)
           \<and> (\<forall>i<length tiles. \<exists>freed.
                 onLayerRemoved_tile (layerObjects p) layer (loadedTiles p ! i) = Inr (tiles ! i, freed))"
proof -
  let ?f = "\<lambda>tile. case onLayerRemoved_tile (layerObjects p) layer tile of
                        Inl e \<Rightarrow> Inl e
                      | Inr (tile', freed) \<Rightarrow> Inr tile'"
  let ?g = "\<lambda>tile. fst (projr (onLayerRemoved_tile (layerObjects p) layer tile))"
  have each: "\<forall>tile \<in> set (loadedTiles p).
      onLayerRemoved_tile (layerObjects p) layer tile =
        Inr (?g tile, snd (projr (onLayerRemoved_tile (layerObjects p) layer tile)))"
    using assms by (simp add: onLayerRemoved_tile_first_run)
  then have "\<forall>tile \<in> set (loadedTiles p). ?f tile = Inr (?g tile)"
    by (metis (no_types, lifting) old.sum.simps(6) case_prod_conv)
  then have "forEachLoadedTile ?f (loadedTiles p) = Inr (map ?g (loadedTiles p))"
    by (rule forEachLoadedTile_map)
  then have "onLayerRemoved p layer = Inr (p\<lparr>loadedTiles := map ?g (loadedTiles p)\<rparr>)"
    by (simp add: onLayerRemoved_def)
  moreover have "\<forall>i<length (map ?g (loadedTiles p)). \<exists>freed.
      onLayerRemoved_tile (layerObjects p) layer (loadedTiles p ! i) =
        Inr (map ?g (loadedTiles p) ! i, freed)"
    using each by (metis length_map nth_map nth_mem)
  ultimately show ?thesis by (metis length_map)
qed


section \<open>Verification: command pool and \<^verbatim>\<open>renderTile\<close>\<close>

lemma sparse_get_put: "sparse_get (sparse_put xs n v) m = (if m = n then Some v else sparse_get xs m)"
  by (auto simp: sparse_get_def sparse_put_def nth_append)

lemma commands_of_put:
  "mset (commands_of (sparse_put xs n v)) + mset (case sparse_get xs n of None \<Rightarrow> [] | Some cs \<Rightarrow> cs)
     = mset (commands_of xs) + mset v"
proof (cases "n < length xs")
  case True
  then have xs: "xs = take n xs @ xs ! n # drop (Suc n) xs" by (simp add: id_take_nth_drop)
  have "commands_of (sparse_put xs n v) = commands_of (take n xs) @ v @ commands_of (drop (Suc n) xs)"
    using True by (simp add: sparse_put_def commands_of_def upd_conv_take_nth_drop)
  moreover have "commands_of xs = commands_of (take n xs)
       @ (case xs ! n of None \<Rightarrow> [] | Some cs \<Rightarrow> cs) @ commands_of (drop (Suc n) xs)"
    by (subst xs) (simp add: commands_of_def)
  ultimately show ?thesis using True by (simp add: sparse_get_def)
next
  case False
  then show ?thesis by (simp add: sparse_put_def commands_of_def sparse_get_def)
qed

text \<open>Pushing a reference on the render list of a texture count, creating the list if needed.\<close>

lemma commands_of_push:
  "mset (commands_of
           (sparse_put (if sparse_get xs n = None then sparse_put xs n [] else xs) n
              (the (sparse_get (if sparse_get xs n = None then sparse_put xs n [] else xs) n) @ [c])))
     = mset (commands_of xs) + {#c#}"
proof (cases "sparse_get xs n")
  case None
  let ?ys = "sparse_put xs n []"
  have 1: "mset (commands_of ?ys) = mset (commands_of xs)"
    using commands_of_put[of xs n "[]"] None by simp
  have 2: "mset (commands_of (sparse_put ?ys n ([] @ [c]))) + mset [] = mset (commands_of ?ys) + mset ([] @ [c])"
    using commands_of_put[of ?ys n "[] @ [c]"] by (simp add: sparse_get_put)
  from None 1 2 show ?thesis by (simp add: sparse_get_put)
next
  case (Some cs)
  have "mset (commands_of (sparse_put xs n (cs @ [c]))) + mset cs = mset (commands_of xs) + mset (cs @ [c])"
    using commands_of_put[of xs n "cs @ [c]"] Some by simp
  then have "mset (commands_of (sparse_put xs n (cs @ [c]))) = mset (commands_of xs) + {#c#}"
    by simp
  with Some show ?thesis by simp
qed

lemma render_list_push:
  "(case sparse_get
           (sparse_put (if sparse_get xs n = None then sparse_put xs n [] else xs) n
              (the (sparse_get (if sparse_get xs n = None then sparse_put xs n [] else xs) n) @ [c])) m
    of None \<Rightarrow> [] | Some cs \<Rightarrow> cs)
   = (if m = n then (case sparse_get xs n of None \<Rightarrow> [] | Some cs \<Rightarrow> cs) @ [c]
      else (case sparse_get xs m of None \<Rightarrow> [] | Some cs \<Rightarrow> cs))"
  by (cases "sparse_get xs n") (simp_all add: sparse_get_put)

lemma day_textures_loop_index:
  "day_textures_loop layers maxT coll len um ap n i = (um', ap', n', i') \<Longrightarrow>
     i \<le> i' \<and> (i \<le> len \<longrightarrow> i' \<le> len) \<and> (n < maxT \<and> i < len \<longrightarrow> i < i')"
proof (induction layers maxT coll len um ap n i rule: day_textures_loop.induct)
  case (1 layers maxT coll len um ap n i)
  show ?case
  proof (cases "n < maxT \<and> i < len")
    case False
    with "1.prems" show ?thesis
      by (auto simp: day_textures_loop.simps[of layers maxT coll len um ap n i])
  next
    case True
    note step = day_textures_loop.simps[of layers maxT coll len um ap n i]
    show ?thesis
    proof (cases "readyImagery (coll ! i)")
      case None
      with True "1.prems" have "day_textures_loop layers maxT coll len um ap n (i + 1) = (um', ap', n', i')"
        by (simp add: step Let_def)
      from "1.IH"(1)[OF True refl refl None this] True show ?thesis by auto
    next
      case (Some img)
      show ?thesis
      proof (cases "imagery_state img \<noteq> ImageryState_READY
                    \<or> is_number_zero (alpha (layers (imageryLayer img)))")
        case skip: True
        with Some True "1.prems"
        have "day_textures_loop layers maxT coll len um ap n (i + 1) = (um', ap', n', i')"
          by (auto simp: step Let_def)
        from "1.IH"(2)[OF True refl refl Some skip this] True show ?thesis by auto
      next
        case use: False
        let ?a = "case alpha (layers (imageryLayer img)) of
                    Dynamic f \<Rightarrow> f (imagery_x img) (imagery_y img) (imagery_level img)
                  | Constant v \<Rightarrow> v"
        let ?um = "um\<lparr> dayTextures := array_set (dayTextures um) n (texture img),
                        dayTextureAlpha := array_set (dayTextureAlpha um) n ?a \<rparr>"
        from Some True use "1.prems"
        have "day_textures_loop layers maxT coll len ?um (ap \<or> ?a \<noteq> 1) (n + 1) (i + 1) = (um', ap', n', i')"
          by (simp add: step Let_def)
        from "1.IH"(3)[OF True refl refl Some use refl refl this] True show ?thesis by auto
      qed
    qed
  qed
qed

lemma day_textures_loop_nothing:
  assumes none: "\<forall>t \<in> set coll. \<not> contributes_texture layers t" and len: "len = length coll"
  shows "day_textures_loop layers maxT coll len um ap n i =
           (um, ap, n, if n < maxT \<and> i < len then len else i)"
  using assms
proof (induction layers maxT coll len um ap n i rule: day_textures_loop.induct)
  case (1 layers maxT coll len um ap n i)
  note step = day_textures_loop.simps[of layers maxT coll len um ap n i]
  show ?case
  proof (cases "n < maxT \<and> i < len")
    case False
    then show ?thesis by (auto simp: step)
  next
    case True
    with "1.prems" have skip: "\<not> contributes_texture layers (coll ! i)" by simp
    have next_i: "(if n < maxT \<and> i + 1 < len then len else i + 1) = len" using True by auto
    show ?thesis
    proof (cases "readyImagery (coll ! i)")
      case None
      from "1.IH"(1)[OF True refl refl None "1.prems"] None True next_i
      show ?thesis by (simp add: step Let_def)
    next
      case (Some img)
      with skip have sk: "imagery_state img \<noteq> ImageryState_READY
                    \<or> is_number_zero (alpha (layers (imageryLayer img)))"
        by (auto simp: contributes_texture_def)
      from "1.IH"(2)[OF True refl refl Some sk "1.prems"] Some sk True next_i
      show ?thesis by (auto simp: step Let_def)
    qed
  qed
qed

text \<open>
  One turn of the loop of \<^verbatim>\<open>renderTile\<close> on a provider that satisfies the invariant: the
  entry claimed is the one at the used count, whether it is new or reused.
\<close>

lemma render_command_step:
  assumes inv: "pool_inv p"
    and dtl: "day_textures_loop (layerObjects p) (maximumTextureImageUnits fs)
                (imagery_list (data tile)) (length (imagery_list (data tile)))
                (if length (drawCommands p) \<le> usedDrawCommands p then createTileUniformMap
                 else uniformMaps p ! usedDrawCommands p)
                False 0 i = (um, ap, n, i')"
  shows "\<exists>p'. render_command fs tile p i = Inr (p', i')
           \<and> pool_inv p' \<and> pool_grows p p'
           \<and> usedDrawCommands p' = usedDrawCommands p + 1
           \<and> (\<forall>m. render_list p' m =
                  (if m = n then render_list p n @ [usedDrawCommands p] else render_list p m))
           \<and> shaderProgram (drawCommands p' ! usedDrawCommands p) = Some (n, ap)
           \<and> owner (drawCommands p' ! usedDrawCommands p) = tile_id tile
           \<and> uniformMap (drawCommands p' ! usedDrawCommands p) = Some (usedDrawCommands p)
           \<and> dayTextures (uniformMaps p' ! usedDrawCommands p) = take n (dayTextures um)
           \<and> layerObjects p' = layerObjects p
           \<and> renderState_defined p' = renderState_defined p"
proof -
  let ?u = "usedDrawCommands p"
  from inv have lens: "length (uniformMaps p) = length (drawCommands p)"
    and used: "?u \<le> length (drawCommands p)"
    and refs: "mset (commands_of (tilesToRenderByTextureCount p)) = mset [0..<?u]"
    by (simp_all add: pool_inv_def endFrame_def)
  let ?push = "sparse_put (if sparse_get (tilesToRenderByTextureCount p) n = None
                           then sparse_put (tilesToRenderByTextureCount p) n []
                           else tilesToRenderByTextureCount p) n
                 (the (sparse_get (if sparse_get (tilesToRenderByTextureCount p) n = None
                                   then sparse_put (tilesToRenderByTextureCount p) n []
                                   else tilesToRenderByTextureCount p) n) @ [?u])"
  let ?um = "um\<lparr>dayTextures := take n (dayTextures um)\<rparr>"
  have pushed: "mset (commands_of ?push) = mset [0..<?u + 1]"
    using commands_of_push[of "tilesToRenderByTextureCount p" n ?u] refs by simp
  show ?thesis
  proof (cases "length (drawCommands p) \<le> ?u")
    case True
    with used have eq: "length (drawCommands p) = ?u" by simp
    let ?cmd = "(new_DrawCommand tile)\<lparr> owner := tile_id tile,
                   debugShowBoundingVolume := (debug_boundingSphereTile p = Some (tile_id tile)),
                   shaderProgram := Some (n, ap), uniformMap := Some ?u \<rparr>"
    let ?p' = "p\<lparr> drawCommands := drawCommands p @ [?cmd],
                   uniformMaps := uniformMaps p @ [?um],
                   usedDrawCommands := ?u + 1,
                   tilesToRenderByTextureCount := ?push \<rparr>"
    have u: "?u = length (drawCommands p)" using eq by simp
    have "render_command fs tile p i = Inr (?p', i')"
      using dtl lens
      by (simp add: render_command_def Let_def u nth_append list_update_append)
    moreover have "pool_inv ?p'"
      using eq lens pushed by (simp add: pool_inv_def endFrame_def)
    moreover have "pool_grows p ?p'"
      using lens by (simp add: pool_grows_def u)
    moreover have "\<forall>m. render_list ?p' m =
                  (if m = n then render_list p n @ [?u] else render_list p m)"
      by (simp add: render_list_def render_list_push)
    ultimately show ?thesis using lens by (intro exI[of _ ?p']) (simp add: u nth_append)
  next
    case False
    with used have lt: "?u < length (drawCommands p)" by simp
    let ?cmd = "(drawCommands p ! ?u)\<lparr> owner := tile_id tile,
                   debugShowBoundingVolume := (debug_boundingSphereTile p = Some (tile_id tile)),
                   shaderProgram := Some (n, ap), uniformMap := Some ?u \<rparr>"
    let ?p' = "p\<lparr> drawCommands := (drawCommands p)[?u := ?cmd],
                   uniformMaps := (uniformMaps p)[?u := ?um],
                   usedDrawCommands := ?u + 1,
                   tilesToRenderByTextureCount := ?push \<rparr>"
    have "render_command fs tile p i = Inr (?p', i')"
      using False dtl lt lens by (simp add: render_command_def Let_def)
    moreover have "pool_inv ?p'"
      using lt lens pushed by (simp add: pool_inv_def endFrame_def)
    moreover have "pool_grows p ?p'"
      using lt lens by (simp add: pool_grows_def max_def)
    moreover have "\<forall>m. render_list ?p' m =
                  (if m = n then render_list p n @ [?u] else render_list p m)"
      by (simp add: render_list_def render_list_push)
    ultimately show ?thesis using lt lens by (intro exI[of _ ?p']) simp
  qed
qed

lemma pool_grows_refl: "usedDrawCommands p \<le> length (drawCommands p) \<Longrightarrow> pool_grows p p"
  by (simp add: pool_grows_def max_def)

lemma pool_grows_trans:
  assumes "pool_grows p q" "pool_grows q r"
  shows "pool_grows p r"
proof -
  let ?a = "usedDrawCommands q" and ?b = "usedDrawCommands r"
  from assms have ab: "?a \<le> ?b" by (simp add: pool_grows_def)
  then have b: "?b = (?b - ?a) + ?a" by simp
  have "\<And>xs ys :: 'a list. drop ?a xs = drop ?a ys \<Longrightarrow> drop ?b xs = drop ?b ys"
  proof -
    fix xs ys :: "'a list" assume e: "drop ?a xs = drop ?a ys"
    have "drop ?b xs = drop (?b - ?a) (drop ?a xs)" using ab by simp
    also have "\<dots> = drop (?b - ?a) (drop ?a ys)" by (simp only: e)
    also have "\<dots> = drop ?b ys" using ab by simp
    finally show "drop ?b xs = drop ?b ys" .
  qed
  note drops = this
  from assms have "drop ?b (drawCommands r) = drop ?b (drawCommands p)"
    and "drop ?b (uniformMaps r) = drop ?b (uniformMaps p)"
    using drops[of "drawCommands q" "drawCommands p"] drops[of "uniformMaps q" "uniformMaps p"]
    by (simp_all add: pool_grows_def)
  moreover from assms have "usedDrawCommands p \<le> ?b"
    and "length (drawCommands r) = max (length (drawCommands p)) ?b"
    and "layerOrderChanged r = layerOrderChanged p"
    and "loadedTiles r = loadedTiles p"
    by (simp_all add: pool_grows_def max_def)
  ultimately show ?thesis by (simp add: pool_grows_def)
qed

text \<open>
  Partial correctness of the loop, by fixpoint induction: whenever the loop returns on a
  provider that satisfies the invariant, it returns normally, the invariant holds again,
  the pool has grown as \<open>pool_grows\<close> says and at least one entry was claimed.
\<close>

lemma render_loop_partial:
  assumes "render_loop fs tile p i = Some r"
  shows "pool_inv p \<longrightarrow>
           (\<exists>p'. r = Inr p' \<and> pool_inv p' \<and> pool_grows p p'
                 \<and> usedDrawCommands p < usedDrawCommands p'
                 \<and> layerObjects p' = layerObjects p)"
proof (rule render_loop.raw_induct
         [where P = "\<lambda>fs tile p i r. pool_inv p \<longrightarrow>
           (\<exists>p'. r = Inr p' \<and> pool_inv p' \<and> pool_grows p p'
                 \<and> usedDrawCommands p < usedDrawCommands p'
                 \<and> layerObjects p' = layerObjects p)", OF _ assms])
  fix loop :: "frame_state \<Rightarrow> quadtree_tile \<Rightarrow> provider \<Rightarrow> nat \<Rightarrow> (error + provider) option"
  fix fs tile p i r
  assume IH: "\<And>fs tile p i r. loop fs tile p i = Some r \<Longrightarrow>
           pool_inv p \<longrightarrow>
           (\<exists>p'. r = Inr p' \<and> pool_inv p' \<and> pool_grows p p'
                 \<and> usedDrawCommands p < usedDrawCommands p'
                 \<and> layerObjects p' = layerObjects p)"
  assume body: "(let rc = render_command fs tile p i
      in if isl rc then Some (Inl (projl rc))
         else if snd (projr rc) < length (imagery_list (data tile))
         then loop fs tile (fst (projr rc)) (snd (projr rc))
         else Some (Inr (fst (projr rc)))) = Some r"
  show "pool_inv p \<longrightarrow>
           (\<exists>p'. r = Inr p' \<and> pool_inv p' \<and> pool_grows p p'
                 \<and> usedDrawCommands p < usedDrawCommands p'
                 \<and> layerObjects p' = layerObjects p)"
  proof
    assume inv: "pool_inv p"
    obtain um ap n i' where dtl:
      "day_textures_loop (layerObjects p) (maximumTextureImageUnits fs)
                (imagery_list (data tile)) (length (imagery_list (data tile)))
                (if length (drawCommands p) \<le> usedDrawCommands p then createTileUniformMap
                 else uniformMaps p ! usedDrawCommands p)
                False 0 i = (um, ap, n, i')"
      by (rule prod_cases4)
    from render_command_step[OF inv dtl] obtain p1 where
      rc: "render_command fs tile p i = Inr (p1, i')"
      and inv1: "pool_inv p1" and grows1: "pool_grows p p1"
      and used1: "usedDrawCommands p1 = usedDrawCommands p + 1"
      and layers1: "layerObjects p1 = layerObjects p"
      by blast
    show "\<exists>p'. r = Inr p' \<and> pool_inv p' \<and> pool_grows p p'
                 \<and> usedDrawCommands p < usedDrawCommands p'
                 \<and> layerObjects p' = layerObjects p"
    proof (cases "i' < length (imagery_list (data tile))")
      case True
      with body rc have "loop fs tile p1 i' = Some r" by (simp add: Let_def)
      from IH[OF this] inv1 obtain p' where
        "r = Inr p'" "pool_inv p'" "pool_grows p1 p'"
        "usedDrawCommands p1 < usedDrawCommands p'" "layerObjects p' = layerObjects p1"
        by blast
      with grows1 used1 layers1 show ?thesis
        using pool_grows_trans[of p p1 p'] by auto
    next
      case False
      with body rc have "r = Inr p1" by (simp add: Let_def)
      with inv1 grows1 used1 layers1 show ?thesis by simp
    qed
  qed
qed

text \<open>
  Total correctness: with a positive texture budget, or with no imagery left, the loop
  returns.
\<close>

lemma render_loop_returns:
  assumes "pool_inv p"
    and "0 < maximumTextureImageUnits fs \<or> length (imagery_list (data tile)) \<le> i"
  shows "\<exists>p'. render_loop fs tile p i = Some (Inr p')"
  using assms
proof (induction "length (imagery_list (data tile)) - i" arbitrary: p i rule: less_induct)
  case less
  obtain um ap n i' where dtl:
      "day_textures_loop (layerObjects p) (maximumTextureImageUnits fs)
                (imagery_list (data tile)) (length (imagery_list (data tile)))
                (if length (drawCommands p) \<le> usedDrawCommands p then createTileUniformMap
                 else uniformMaps p ! usedDrawCommands p)
                False 0 i = (um, ap, n, i')"
    by (rule prod_cases4)
  from render_command_step[OF less.prems(1) dtl] obtain p1 where
      rc: "render_command fs tile p i = Inr (p1, i')" and inv1: "pool_inv p1"
    by blast
  show ?case
  proof (cases "i' < length (imagery_list (data tile))")
    case True
    from day_textures_loop_index[OF dtl] have le: "i \<le> i'"
      and progress: "0 < maximumTextureImageUnits fs \<and> i < length (imagery_list (data tile)) \<longrightarrow> i < i'"
      by simp_all
    from True le less.prems(2) have budget: "0 < maximumTextureImageUnits fs"
      and "i < length (imagery_list (data tile))" by auto
    with progress have "i < i'" by simp
    with True have "length (imagery_list (data tile)) - i' < length (imagery_list (data tile)) - i"
      by simp
    from less.hyps[OF this inv1] budget obtain p' where "render_loop fs tile p1 i' = Some (Inr p')"
      by blast
    with True rc show ?thesis by (subst render_loop.simps) (simp add: Let_def)
  next
    case False
    with rc show ?thesis by (subst render_loop.simps) (simp add: Let_def)
  qed
qed

lemma pool_inv_renderState [simp]:
  "pool_inv (p\<lparr>renderState_defined := b\<rparr>) = pool_inv p"
  by (simp add: pool_inv_def endFrame_def)

lemma pool_grows_renderState [simp]:
  "pool_grows (p\<lparr>renderState_defined := b\<rparr>) p' = pool_grows p p'"
  by (simp add: pool_grows_def)

lemma renderTile_partial:
  assumes "renderTile tile fs p = Some r" and "pool_inv p"
  shows "\<exists>p'. r = Inr p' \<and> pool_inv p' \<and> pool_grows p p'
               \<and> usedDrawCommands p < usedDrawCommands p'
               \<and> layerObjects p' = layerObjects p"
proof -
  let ?p0 = "if \<not> renderState_defined p then p\<lparr>renderState_defined := True\<rparr> else p"
  from assms(1) have "render_loop fs tile ?p0 0 = Some r" by (simp add: renderTile_def Let_def)
  from render_loop_partial[OF this] assms(2) show ?thesis by (auto split: if_splits)
qed

lemma renderTile_returns:
  assumes "pool_inv p"
    and "0 < maximumTextureImageUnits fs \<or> imagery_list (data tile) = []"
  shows "\<exists>p'. renderTile tile fs p = Some (Inr p')"
proof -
  let ?p0 = "if \<not> renderState_defined p then p\<lparr>renderState_defined := True\<rparr> else p"
  have "pool_inv ?p0" using assms(1) by simp
  moreover have "0 < maximumTextureImageUnits fs \<or> length (imagery_list (data tile)) \<le> 0"
    using assms(2) by simp
  ultimately have "\<exists>p'. render_loop fs tile ?p0 0 = Some (Inr p')" by (rule render_loop_returns)
  then show ?thesis by (simp add: renderTile_def Let_def)
qed

text \<open>
  A tile none of whose imagery contributes a texture: the loop body runs once, claims
  the entry at the used count and pushes it on the render list of texture count 0.
\<close>

lemma renderTile_one_command:
  assumes inv: "pool_inv p"
    and budget: "0 < maximumTextureImageUnits fs \<or> imagery_list (data tile) = []"
    and none: "\<forall>t \<in> set (imagery_list (data tile)). \<not> contributes_texture (layerObjects p) t"
  shows "\<exists>p'. renderTile tile fs p = Some (Inr p')
           \<and> pool_inv p' \<and> pool_grows p p'
           \<and> usedDrawCommands p' = usedDrawCommands p + 1
           \<and> (\<forall>m. render_list p' m =
                  (if m = 0 then render_list p 0 @ [usedDrawCommands p] else render_list p m))
           \<and> shaderProgram (drawCommands p' ! usedDrawCommands p) = Some (0, False)
           \<and> owner (drawCommands p' ! usedDrawCommands p) = tile_id tile
           \<and> dayTextures (uniformMaps p' ! usedDrawCommands p) = []
           \<and> layerObjects p' = layerObjects p"
proof -
  let ?p0 = "if \<not> renderState_defined p then p\<lparr>renderState_defined := True\<rparr> else p"
  let ?len = "length (imagery_list (data tile))"
  let ?um0 = "if length (drawCommands ?p0) \<le> usedDrawCommands ?p0 then createTileUniformMap
              else uniformMaps ?p0 ! usedDrawCommands ?p0"
  let ?i' = "if 0 < maximumTextureImageUnits fs \<and> 0 < ?len then ?len else 0"
  have inv0: "pool_inv ?p0" using inv by simp
  have same: "layerObjects ?p0 = layerObjects p" "usedDrawCommands ?p0 = usedDrawCommands p"
    "drawCommands ?p0 = drawCommands p" "uniformMaps ?p0 = uniformMaps p"
    "tilesToRenderByTextureCount ?p0 = tilesToRenderByTextureCount p"
    by simp_all
  have dtl: "day_textures_loop (layerObjects ?p0) (maximumTextureImageUnits fs)
               (imagery_list (data tile)) ?len ?um0 False 0 0 = (?um0, False, 0, ?i')"
    using day_textures_loop_nothing[of "imagery_list (data tile)" "layerObjects ?p0" ?len] none
    by (simp only: same)
  from render_command_step[OF inv0 dtl] obtain p1 where
    rc: "render_command fs tile ?p0 0 = Inr (p1, ?i')"
    and p1: "pool_inv p1" "pool_grows ?p0 p1" "usedDrawCommands p1 = usedDrawCommands ?p0 + 1"
      "\<forall>m. render_list p1 m =
          (if m = 0 then render_list ?p0 0 @ [usedDrawCommands ?p0] else render_list ?p0 m)"
      "shaderProgram (drawCommands p1 ! usedDrawCommands ?p0) = Some (0, False)"
      "owner (drawCommands p1 ! usedDrawCommands ?p0) = tile_id tile"
      "dayTextures (uniformMaps p1 ! usedDrawCommands ?p0) = take 0 (dayTextures ?um0)"
      "layerObjects p1 = layerObjects ?p0"
    by blast
  have exit: "\<not> ?i' < ?len" using budget by auto
  have "render_loop fs tile ?p0 0 = Some (Inr p1)"
    using rc exit by (subst render_loop.simps) (simp add: Let_def)
  then have run: "renderTile tile fs p = Some (Inr p1)" by (simp add: renderTile_def Let_def)
  have lists: "\<And>m. render_list ?p0 m = render_list p m" by (simp add: render_list_def)
  from run p1 show ?thesis
    unfolding lists same by (intro exI[of _ p1]) (simp add: pool_grows_def)
qed

lemma endFrame_length:
  assumes "pool_inv p"
  shows "length (endFrame p commandList) = length commandList + usedDrawCommands p"
proof -
  from assms have "mset (endFrame p []) = mset [0..<usedDrawCommands p]"
    by (simp add: pool_inv_def)
  then have "size (mset (endFrame p [])) = size (mset [0..<usedDrawCommands p])" by simp
  then have "length (endFrame p []) = usedDrawCommands p" by simp
  then show ?thesis by (simp add: endFrame_def)
qed

lemma endFrame_below_used:
  assumes "pool_inv p"
  shows "set (endFrame p []) = {..<usedDrawCommands p} \<and> distinct (endFrame p [])"
proof -
  from assms have m: "mset (endFrame p []) = mset [0..<usedDrawCommands p]"
    by (simp add: pool_inv_def)
  have "set (endFrame p []) = set [0..<usedDrawCommands p]" using m by (rule mset_eq_setD)
  then have s: "set (endFrame p []) = {..<usedDrawCommands p}"
    by (simp only: set_upt lessThan_atLeast0)
  have "distinct (endFrame p []) = distinct [0..<usedDrawCommands p]"
    using m by (rule mset_eq_imp_distinct_iff)
  then have d: "distinct (endFrame p [])" by (simp only: distinct_upt)
  from s d show ?thesis by (rule conjI)
qed

text \<open>
  C10. On a provider that satisfies the pool invariant, with a positive texture budget
  (or a tile without imagery), every call of \<^verbatim>\<open>renderTile\<close> returns, claims at least one
  pool entry, and \<^verbatim>\<open>endFrame\<close> afterwards emits at least one command more. When the
  tile's TileImagery list is empty, or none of its entries contributes a texture (no
  ready imagery, imagery not READY, or alpha 0), the loop body runs exactly once: the used
  count goes up by one, the claimed command has zero day textures, and its reference is
  appended to the render list of texture count 0 and to no other.
\<close>

theorem renderTile_emits_a_command:
  assumes "pool_inv p"
    and "0 < maximumTextureImageUnits frameState \<or> imagery_list (data tile) = []"
  shows "\<exists>p'. renderTile tile frameState p = Some (Inr p')
           \<and> usedDrawCommands p < usedDrawCommands p'
           \<and> length (endFrame p commandList) < length (endFrame p' commandList)
           \<and> ((\<forall>t \<in> set (imagery_list (data tile)). \<not> contributes_texture (layerObjects p) t) \<longrightarrow>
                usedDrawCommands p' = usedDrawCommands p + 1
                \<and> render_list p' 0 = render_list p 0 @ [usedDrawCommands p]
                \<and> (\<forall>m. m \<noteq> 0 \<longrightarrow> render_list p' m = render_list p m)
                \<and> shaderProgram (drawCommands p' ! usedDrawCommands p) = Some (0, False)
                \<and> dayTextures (uniformMaps p' ! usedDrawCommands p) = []
                \<and> owner (drawCommands p' ! usedDrawCommands p) = tile_id tile)"
proof -
  from renderTile_returns[OF assms] obtain p' where run: "renderTile tile frameState p = Some (Inr p')"
    by blast
  from renderTile_partial[OF run assms(1)]
  have inv': "pool_inv p'" and more: "usedDrawCommands p < usedDrawCommands p'" by blast+
  have emitted: "length (endFrame p commandList) < length (endFrame p' commandList)"
    using more by (simp add: endFrame_length[OF assms(1)] endFrame_length[OF inv'])
  have "(\<forall>t \<in> set (imagery_list (data tile)). \<not> contributes_texture (layerObjects p) t) \<longrightarrow>
                usedDrawCommands p' = usedDrawCommands p + 1
                \<and> render_list p' 0 = render_list p 0 @ [usedDrawCommands p]
                \<and> (\<forall>m. m \<noteq> 0 \<longrightarrow> render_list p' m = render_list p m)
                \<and> shaderProgram (drawCommands p' ! usedDrawCommands p) = Some (0, False)
                \<and> dayTextures (uniformMaps p' ! usedDrawCommands p) = []
                \<and> owner (drawCommands p' ! usedDrawCommands p) = tile_id tile"
  proof
    assume none: "\<forall>t \<in> set (imagery_list (data tile)). \<not> contributes_texture (layerObjects p) t"
    from renderTile_one_command[OF assms none] obtain p1 where
      p1: "renderTile tile frameState p = Some (Inr p1)"
      "usedDrawCommands p1 = usedDrawCommands p + 1"
      "\<forall>m. render_list p1 m =
                  (if m = 0 then render_list p 0 @ [usedDrawCommands p] else render_list p m)"
      "shaderProgram (drawCommands p1 ! usedDrawCommands p) = Some (0, False)"
      "owner (drawCommands p1 ! usedDrawCommands p) = tile_id tile"
      "dayTextures (uniformMaps p1 ! usedDrawCommands p) = []"
      by blast
    from p1(1) run have "p1 = p'" by simp
    with p1 show "usedDrawCommands p' = usedDrawCommands p + 1
                \<and> render_list p' 0 = render_list p 0 @ [usedDrawCommands p]
                \<and> (\<forall>m. m \<noteq> 0 \<longrightarrow> render_list p' m = render_list p m)
                \<and> shaderProgram (drawCommands p' ! usedDrawCommands p) = Some (0, False)
                \<and> dayTextures (uniformMaps p' ! usedDrawCommands p) = []
                \<and> owner (drawCommands p' ! usedDrawCommands p) = tile_id tile"
      by simp
  qed
  note special = this
  show ?thesis by (intro exI[of _ p'] conjI) (fact run more emitted special)+
qed

lemma example_provider_inv: "pool_inv example_provider"
  by (simp add: pool_inv_def example_provider_def GlobeSurfaceTileProvider_def endFrame_def
      commands_of_def)

lemma example_nothing_ready:
  "\<forall>t \<in> set (imagery_list (data example_tile_nothing_ready)). \<not> contributes_texture layers t"
  by (simp add: example_tile_nothing_ready_def tile_with_imagery_def contributes_texture_def
      example_imagery_def)

theorem renderTile_emits_a_command_witness:
  "\<exists>p'. renderTile example_tile_nothing_ready (example_frame_state SCENE3D) example_provider
           = Some (Inr p')
         \<and> usedDrawCommands p' = 1
         \<and> render_list p' 0 = [0]
         \<and> shaderProgram (drawCommands p' ! 0) = Some (0, False)
         \<and> dayTextures (uniformMaps p' ! 0) = []
         \<and> endFrame p' [] = [0]"
proof -
  have budget: "0 < maximumTextureImageUnits (example_frame_state SCENE3D)
                \<or> imagery_list (data example_tile_nothing_ready) = []"
    by (simp add: example_frame_state_def)
  have start: "usedDrawCommands example_provider = 0" "render_list example_provider 0 = []"
    by (simp_all add: example_provider_def GlobeSurfaceTileProvider_def render_list_def
        sparse_get_def)
  from renderTile_emits_a_command[OF example_provider_inv budget, of "[]"]
  obtain p' where run: "renderTile example_tile_nothing_ready (example_frame_state SCENE3D)
                          example_provider = Some (Inr p')"
    and cond: "(\<forall>t \<in> set (imagery_list (data example_tile_nothing_ready)).
                  \<not> contributes_texture (layerObjects example_provider) t) \<longrightarrow>
                usedDrawCommands p' = usedDrawCommands example_provider + 1
                \<and> render_list p' 0 = render_list example_provider 0 @ [usedDrawCommands example_provider]
                \<and> (\<forall>m. m \<noteq> 0 \<longrightarrow> render_list p' m = render_list example_provider m)
                \<and> shaderProgram (drawCommands p' ! usedDrawCommands example_provider) = Some (0, False)
                \<and> dayTextures (uniformMaps p' ! usedDrawCommands example_provider) = []
                \<and> owner (drawCommands p' ! usedDrawCommands example_provider) = tile_id example_tile_nothing_ready"
    by blast
  from cond example_nothing_ready
  have one: "usedDrawCommands p' = 1" "render_list p' 0 = [0]"
      "shaderProgram (drawCommands p' ! 0) = Some (0, False)"
      "dayTextures (uniformMaps p' ! 0) = []"
    by (simp_all add: start)
  from renderTile_partial[OF run example_provider_inv] have "pool_inv p'" by auto
  then have "set (endFrame p' []) = {0}" and "length (endFrame p' []) = 1"
    using endFrame_below_used[of p'] endFrame_length[of p' "[]"] one(1) by auto
  then have "endFrame p' [] = [0]" by (cases "endFrame p' []") auto
  with run one show ?thesis by blast
qed

text \<open>
  With a texture budget of 0 and imagery left, the inner loop consumes nothing and the
  \<^verbatim>\<open>do ... while\<close> loop of \<^verbatim>\<open>renderTile\<close> does not return.
\<close>

lemma render_loop_diverges:
  assumes "render_loop fs tile p i = Some r"
  shows "\<not> (pool_inv p \<and> maximumTextureImageUnits fs = 0 \<and> i < length (imagery_list (data tile)))"
proof (rule render_loop.raw_induct
         [where P = "\<lambda>fs tile p i r.
            \<not> (pool_inv p \<and> maximumTextureImageUnits fs = 0 \<and> i < length (imagery_list (data tile)))",
          OF _ assms])
  fix loop :: "frame_state \<Rightarrow> quadtree_tile \<Rightarrow> provider \<Rightarrow> nat \<Rightarrow> (error + provider) option"
  fix fs tile p i r
  assume IH: "\<And>fs tile p i r. loop fs tile p i = Some r \<Longrightarrow>
           \<not> (pool_inv p \<and> maximumTextureImageUnits fs = 0 \<and> i < length (imagery_list (data tile)))"
  assume body: "(let rc = render_command fs tile p i
      in if isl rc then Some (Inl (projl rc))
         else if snd (projr rc) < length (imagery_list (data tile))
         then loop fs tile (fst (projr rc)) (snd (projr rc))
         else Some (Inr (fst (projr rc)))) = Some r"
  show "\<not> (pool_inv p \<and> maximumTextureImageUnits fs = 0 \<and> i < length (imagery_list (data tile)))"
  proof
    assume a: "pool_inv p \<and> maximumTextureImageUnits fs = 0 \<and> i < length (imagery_list (data tile))"
    let ?um0 = "if length (drawCommands p) \<le> usedDrawCommands p then createTileUniformMap
                 else uniformMaps p ! usedDrawCommands p"
    have dtl: "day_textures_loop (layerObjects p) (maximumTextureImageUnits fs)
                (imagery_list (data tile)) (length (imagery_list (data tile))) ?um0 False 0 i
               = (?um0, False, 0, i)"
      using a by (simp add: day_textures_loop.simps)
    from a have inv: "pool_inv p" by simp
    from render_command_step[OF inv dtl] obtain p1 where
      rc: "render_command fs tile p i = Inr (p1, i)" and inv1: "pool_inv p1"
      by blast
    from body rc a have "loop fs tile p1 i = Some r" by (simp add: Let_def)
    from IH[OF this] inv1 a show False by simp
  qed
qed

lemma renderTile_diverges:
  assumes "pool_inv p" and "maximumTextureImageUnits fs = 0" and "imagery_list (data tile) \<noteq> []"
  shows "renderTile tile fs p = None"
proof (cases "renderTile tile fs p")
  case None
  then show ?thesis .
next
  case (Some r)
  let ?p0 = "if \<not> renderState_defined p then p\<lparr>renderState_defined := True\<rparr> else p"
  from Some have "render_loop fs tile ?p0 0 = Some r" by (simp add: renderTile_def Let_def)
  moreover have "pool_inv ?p0" using assms(1) by simp
  ultimately have False using render_loop_diverges[of fs tile ?p0 0 r] assms(2,3) by simp
  then show ?thesis ..
qed


section \<open>Verification: frames and the pool's high-water mark\<close>

text \<open>
  The pool invariant holds for a new provider and is kept by every method that touches the
  provider (\<open>beginFrame_inv\<close>, \<open>renderTile_partial\<close> and the two lemmas below;
  \<^verbatim>\<open>endFrame\<close> only reads it).
\<close>

lemma new_provider_inv: "pool_inv (GlobeSurfaceTileProvider layers tiles)"
  by (simp add: pool_inv_def GlobeSurfaceTileProvider_def endFrame_def commands_of_def)

lemma onLayerRemoved_inv:
  assumes "onLayerRemoved p layer = Inr p'" and "pool_inv p"
  shows "pool_inv p'"
  using assms by (auto simp: onLayerRemoved_def pool_inv_def endFrame_def split: sum.splits)

lemma onLayerMoved_inv: "pool_inv p \<Longrightarrow> pool_inv (onLayerMoved p)"
  by (simp add: onLayerMoved_def pool_inv_def endFrame_def)

lemma commands_of_cleared:
  "commands_of (map (\<lambda>tiles. case tiles of None \<Rightarrow> None | Some cs \<Rightarrow> Some []) xs) = []"
  by (induction xs) (simp_all add: commands_of_def split: option.splits)

lemma beginFrame_pool:
  assumes "beginFrame p = Inr q"
  shows "drawCommands q = drawCommands p \<and> uniformMaps q = uniformMaps p
         \<and> usedDrawCommands q = 0
         \<and> commands_of (tilesToRenderByTextureCount q) = []"
proof (cases "layerOrderChanged p")
  case False
  with assms show ?thesis by (auto simp: beginFrame_def commands_of_cleared)
next
  case True
  show ?thesis
  proof (cases "forEachLoadedTile (sort_tile_imagery (layerObjects p)) (loadedTiles p)")
    case (Inl e)
    with True assms show ?thesis by (simp add: beginFrame_def)
  next
    case (Inr tiles)
    with True assms show ?thesis by (auto simp: beginFrame_def commands_of_cleared)
  qed
qed

lemma beginFrame_inv:
  assumes "beginFrame p = Inr q" and "length (uniformMaps p) = length (drawCommands p)"
  shows "pool_inv q"
  using beginFrame_pool[OF assms(1)] assms(2) by (simp add: pool_inv_def endFrame_def)

lemma beginFrame_returns:
  assumes "\<not> layerOrderChanged p \<or> loadedTiles p = []"
  shows "\<exists>q. beginFrame p = Inr q \<and> layerOrderChanged q = False \<and> loadedTiles q = loadedTiles p"
  using assms by (auto simp: beginFrame_def)

lemma render_tiles_partial:
  assumes "render_tiles fs p tiles = Some (Inr p')" and "pool_inv p"
  shows "pool_inv p' \<and> pool_grows p p'"
  using assms
proof (induction tiles arbitrary: p)
  case Nil
  then show ?case by (simp add: pool_grows_refl pool_inv_def)
next
  case (Cons tile tiles)
  show ?case
  proof (cases "renderTile tile fs p")
    case None
    with Cons.prems show ?thesis by simp
  next
    case (Some r)
    from renderTile_partial[OF Some Cons.prems(2)] obtain p1 where
      r: "r = Inr p1" and inv1: "pool_inv p1" and grows1: "pool_grows p p1" by blast
    from Cons.prems(1) Some r have "render_tiles fs p1 tiles = Some (Inr p')" by simp
    from Cons.IH[OF this inv1] grows1 show ?thesis using pool_grows_trans by blast
  qed
qed

lemma run_frame_partial:
  assumes "run_frame fs p tiles = Some (Inr (p', out))" and "pool_inv p"
  shows "pool_inv p' \<and> out = endFrame p' []
         \<and> length (drawCommands p') = max (length (drawCommands p)) (usedDrawCommands p')
         \<and> drop (usedDrawCommands p') (drawCommands p') = drop (usedDrawCommands p') (drawCommands p)
         \<and> drop (usedDrawCommands p') (uniformMaps p') = drop (usedDrawCommands p') (uniformMaps p)"
proof (cases "beginFrame p")
  case (Inl e)
  with assms(1) show ?thesis by (simp add: run_frame_def)
next
  case (Inr q)
  from assms(2) have lens: "length (uniformMaps p) = length (drawCommands p)"
    by (simp add: pool_inv_def)
  from beginFrame_inv[OF Inr lens] have invq: "pool_inv q" .
  from beginFrame_pool[OF Inr] have same: "drawCommands q = drawCommands p" "uniformMaps q = uniformMaps p"
    by simp_all
  show ?thesis
  proof (cases "render_tiles fs q tiles")
    case None
    with Inr assms(1) show ?thesis by (simp add: run_frame_def)
  next
    case (Some r)
    show ?thesis
    proof (cases r)
      case (Inl e)
      with Some Inr assms(1) show ?thesis by (simp add: run_frame_def)
    next
      case (Inr p2)
      with Some \<open>beginFrame p = Inr q\<close> assms(1) have p2: "p2 = p'" and out: "out = endFrame p' []"
        by (auto simp: run_frame_def)
      from Some Inr p2 have "render_tiles fs q tiles = Some (Inr p')" by simp
      from render_tiles_partial[OF this invq] out same show ?thesis
        by (simp add: pool_grows_def)
    qed
  qed
qed

lemma singleton_of_set:
  assumes "set xs = {..<Suc 0}" and "distinct xs"
  shows "xs = [0]"
proof (cases xs)
  case Nil
  with assms(1) have "(0::nat) \<in> {}" by auto
  then show ?thesis by simp
next
  case (Cons y ys)
  with assms(1) have y: "y = 0" by auto
  have "ys = []"
  proof (cases ys)
    case Nil then show ?thesis .
  next
    case (Cons z zs)
    with \<open>xs = y # ys\<close> assms(1) have "z = 0" by auto
    with Cons \<open>xs = y # ys\<close> y assms(2) show ?thesis by simp
  qed
  with Cons y show ?thesis by simp
qed

text \<open>
  C5. Start from a provider that satisfies the pool invariant and run three frames
  (\<^verbatim>\<open>beginFrame\<close>, the tiles, \<^verbatim>\<open>endFrame\<close>) that claim 2, 5 and 1 commands. The pool
  never gets shorter; after the second frame it holds at least 5 commands, exactly the
  larger of 5 and its first length; the third frame allocates nothing and leaves every
  pool entry from index 1 on as it was; \<^verbatim>\<open>endFrame\<close> emits exactly the references below
  the used count of its frame, so the third frame emits command 0 only; and
  \<^verbatim>\<open>beginFrame\<close> leaves both pool arrays as they are and sets the used count to 0.
\<close>

theorem pool_grows_to_high_water_mark:
  assumes inv: "pool_inv p0"
    and f1: "run_frame fs1 p0 tiles1 = Some (Inr (p1, out1))" and u1: "usedDrawCommands p1 = 2"
    and f2: "run_frame fs2 p1 tiles2 = Some (Inr (p2, out2))" and u2: "usedDrawCommands p2 = 5"
    and f3: "run_frame fs3 p2 tiles3 = Some (Inr (p3, out3))" and u3: "usedDrawCommands p3 = 1"
  shows "length (drawCommands p0) \<le> length (drawCommands p1)
       \<and> length (drawCommands p1) \<le> length (drawCommands p2)
       \<and> 5 \<le> length (drawCommands p2)
       \<and> length (drawCommands p2) = max (length (drawCommands p0)) 5
       \<and> length (drawCommands p3) = length (drawCommands p2)
       \<and> drop 1 (drawCommands p3) = drop 1 (drawCommands p2)
       \<and> drop 1 (uniformMaps p3) = drop 1 (uniformMaps p2)
       \<and> set out1 = {..<2} \<and> set out2 = {..<5} \<and> out3 = [0]
       \<and> (\<forall>q. beginFrame p3 = Inr q \<longrightarrow>
              drawCommands q = drawCommands p3 \<and> uniformMaps q = uniformMaps p3
              \<and> usedDrawCommands q = 0)"
proof -
  from run_frame_partial[OF f1 inv] u1
  have inv1: "pool_inv p1" and o1: "out1 = endFrame p1 []"
    and l1: "length (drawCommands p1) = max (length (drawCommands p0)) 2"
    by simp_all
  from run_frame_partial[OF f2 inv1] u2
  have inv2: "pool_inv p2" and o2: "out2 = endFrame p2 []"
    and l2: "length (drawCommands p2) = max (length (drawCommands p1)) 5"
    by simp_all
  from run_frame_partial[OF f3 inv2] u3
  have inv3: "pool_inv p3" and o3: "out3 = endFrame p3 []"
    and l3: "length (drawCommands p3) = max (length (drawCommands p2)) 1"
    and d3: "drop 1 (drawCommands p3) = drop 1 (drawCommands p2)"
      "drop 1 (uniformMaps p3) = drop 1 (uniformMaps p2)"
    by simp_all
  from endFrame_below_used[OF inv1] o1 u1 have s1: "set out1 = {..<2}" by simp
  from endFrame_below_used[OF inv2] o2 u2 have s2: "set out2 = {..<5}" by simp
  from endFrame_below_used[OF inv3] o3 u3 have "set out3 = {..<Suc 0}" "distinct out3" by simp_all
  then have s3: "out3 = [0]" by (rule singleton_of_set)
  have b: "\<forall>q. beginFrame p3 = Inr q \<longrightarrow>
              drawCommands q = drawCommands p3 \<and> uniformMaps q = uniformMaps p3
              \<and> usedDrawCommands q = 0"
    using beginFrame_pool by blast
  from l1 l2 l3 have lens: "length (drawCommands p0) \<le> length (drawCommands p1)"
    "length (drawCommands p1) \<le> length (drawCommands p2)"
    "5 \<le> length (drawCommands p2)"
    "length (drawCommands p2) = max (length (drawCommands p0)) 5"
    "length (drawCommands p3) = length (drawCommands p2)"
    by simp_all
  show ?thesis by (intro conjI) (fact lens d3 s1 s2 s3 b)+
qed

lemma render_tiles_one_each:
  assumes "pool_inv p" and "0 < maximumTextureImageUnits fs"
    and "\<forall>tile \<in> set tiles. \<forall>layers. \<forall>t \<in> set (imagery_list (data tile)).
           \<not> contributes_texture layers t"
  shows "\<exists>p'. render_tiles fs p tiles = Some (Inr p')
           \<and> usedDrawCommands p' = usedDrawCommands p + length tiles"
  using assms
proof (induction tiles arbitrary: p)
  case Nil
  then show ?case by simp
next
  case (Cons tile tiles)
  have budget: "0 < maximumTextureImageUnits fs \<or> imagery_list (data tile) = []"
    using Cons.prems(2) by simp
  have none: "\<forall>t \<in> set (imagery_list (data tile)). \<not> contributes_texture (layerObjects p) t"
    using Cons.prems(3) by simp
  from renderTile_one_command[OF Cons.prems(1) budget none] obtain p1 where
    run: "renderTile tile fs p = Some (Inr p1)" and inv1: "pool_inv p1"
    and used1: "usedDrawCommands p1 = usedDrawCommands p + 1"
    by blast
  have rest: "\<forall>tile \<in> set tiles. \<forall>layers. \<forall>t \<in> set (imagery_list (data tile)).
           \<not> contributes_texture layers t"
    using Cons.prems(3) by simp
  from Cons.IH[OF inv1 Cons.prems(2) rest] obtain p' where
    "render_tiles fs p1 tiles = Some (Inr p')"
    "usedDrawCommands p' = usedDrawCommands p1 + length tiles"
    by blast
  with run used1 show ?case by simp
qed

lemma example_frame:
  assumes "pool_inv p" and "\<not> layerOrderChanged p"
  shows "\<exists>p' out. run_frame (example_frame_state SCENE3D) p (example_frame_tiles k) = Some (Inr (p', out))
           \<and> usedDrawCommands p' = k \<and> pool_inv p' \<and> \<not> layerOrderChanged p'"
proof -
  from beginFrame_returns[of p] assms(2) obtain q where
    q: "beginFrame p = Inr q" and flag: "layerOrderChanged q = False"
    by blast
  from assms(1) have "length (uniformMaps p) = length (drawCommands p)" by (simp add: pool_inv_def)
  from beginFrame_inv[OF q this] have invq: "pool_inv q" .
  from beginFrame_pool[OF q] have zero: "usedDrawCommands q = 0" by simp
  have budget: "0 < maximumTextureImageUnits (example_frame_state SCENE3D)"
    by (simp add: example_frame_state_def)
  have none: "\<forall>tile \<in> set (example_frame_tiles k). \<forall>layers.
                \<forall>t \<in> set (imagery_list (data tile)). \<not> contributes_texture layers t"
    using example_nothing_ready by (simp add: example_frame_tiles_def)
  from render_tiles_one_each[OF invq budget none] zero obtain p' where
    run: "render_tiles (example_frame_state SCENE3D) q (example_frame_tiles k) = Some (Inr p')"
    and used: "usedDrawCommands p' = k"
    by (auto simp: example_frame_tiles_def)
  from render_tiles_partial[OF run invq] flag
  have "pool_inv p'" "\<not> layerOrderChanged p'" by (simp_all add: pool_grows_def)
  with q run used show ?thesis by (simp add: run_frame_def)
qed

theorem pool_grows_to_high_water_mark_witness:
  "\<exists>p1 out1 p2 out2 p3 out3.
      run_frame (example_frame_state SCENE3D) example_provider (example_frame_tiles 2)
        = Some (Inr (p1, out1))
    \<and> run_frame (example_frame_state SCENE3D) p1 (example_frame_tiles 5) = Some (Inr (p2, out2))
    \<and> run_frame (example_frame_state SCENE3D) p2 (example_frame_tiles 1) = Some (Inr (p3, out3))
    \<and> usedDrawCommands p1 = 2 \<and> usedDrawCommands p2 = 5 \<and> usedDrawCommands p3 = 1
    \<and> length (drawCommands p2) = 5 \<and> length (drawCommands p3) = 5
    \<and> drop 1 (drawCommands p3) = drop 1 (drawCommands p2)
    \<and> out3 = [0]"
proof -
  have flag0: "\<not> layerOrderChanged example_provider"
    by (simp add: example_provider_def GlobeSurfaceTileProvider_def)
  have len0: "length (drawCommands example_provider) = 0"
    by (simp add: example_provider_def GlobeSurfaceTileProvider_def)
  from example_frame[OF example_provider_inv flag0, of 2] obtain p1 out1 where
    f1: "run_frame (example_frame_state SCENE3D) example_provider (example_frame_tiles 2)
           = Some (Inr (p1, out1))"
    and u1: "usedDrawCommands p1 = 2" and inv1: "pool_inv p1" and flag1: "\<not> layerOrderChanged p1"
    by blast
  from example_frame[OF inv1 flag1, of 5] obtain p2 out2 where
    f2: "run_frame (example_frame_state SCENE3D) p1 (example_frame_tiles 5) = Some (Inr (p2, out2))"
    and u2: "usedDrawCommands p2 = 5" and inv2: "pool_inv p2" and flag2: "\<not> layerOrderChanged p2"
    by blast
  from example_frame[OF inv2 flag2, of 1] obtain p3 out3 where
    f3: "run_frame (example_frame_state SCENE3D) p2 (example_frame_tiles 1) = Some (Inr (p3, out3))"
    and u3: "usedDrawCommands p3 = 1"
    by blast
  from pool_grows_to_high_water_mark[OF example_provider_inv f1 u1 f2 u2 f3 u3] len0
  have "length (drawCommands p2) = 5" "length (drawCommands p3) = 5"
    "drop 1 (drawCommands p3) = drop 1 (drawCommands p2)" "out3 = [0]"
    by simp_all
  with f1 f2 f3 u1 u2 u3 show ?thesis by blast
qed

end
